theory Spec2Isabelle
  imports Main "HOL-Library.AList" "HOL-Library.Sublist"
begin

section \<open>Strings and numbers of the host language\<close>

text \<open>
  A string is the list of its code units, each one a \<^typ>\<open>char\<close>. The catalog and the
  citations are English text, and the model gives the ASCII behaviour of the string
  functions: \<open>toLowerCase\<close> and the case-insensitive flag of the regular expression act on
  the letters A to Z, white space (\<open>\s\<close>, \<open>trim\<close>, the blanks \<open>parseInt\<close> skips) is
  blank, tab, line feed, vertical tab, form feed and carriage return.
\<close>

definition isDigit :: "char \<Rightarrow> bool" where
  "isDigit c = (c \<in> set ''0123456789'')"

definition isSpace :: "char \<Rightarrow> bool" where
  "isSpace c = (c \<in> {CHR '' '', CHR 0x09, CHR 0x0A, CHR 0x0B, CHR 0x0C, CHR 0x0D})"

definition lowerChar :: "char \<Rightarrow> char" where
  "lowerChar c =
     (case map_of (zip ''ABCDEFGHIJKLMNOPQRSTUVWXYZ'' ''abcdefghijklmnopqrstuvwxyz'') c of
        Some l \<Rightarrow> l
      | None \<Rightarrow> c)"

definition toLowerCase :: "string \<Rightarrow> string" where
  "toLowerCase s = map lowerChar s"

definition trim :: "string \<Rightarrow> string" where
  "trim s = rev (dropWhile isSpace (rev (dropWhile isSpace s)))"

text \<open>\<open>s.substring(a, b)\<close> for \<open>a \<le> b\<close>: both ends are clamped to the length.\<close>

definition substring :: "nat \<Rightarrow> nat \<Rightarrow> string \<Rightarrow> string" where
  "substring a b s = take (b - a) (drop a s)"

definition padStart :: "nat \<Rightarrow> char \<Rightarrow> string \<Rightarrow> string" where
  "padStart n c s = replicate (n - length s) c @ s"

text \<open>
  The numbers the program computes with are the results of \<open>parseInt\<close> and the fields of
  references built from them: an integer or \<open>NaN\<close>. Integers are unbounded in the model
  (a run of more than fifteen digits loses precision in the program). A comparison with
  \<open>NaN\<close> is false, and \<open>NaN\<close> and \<open>0\<close> are the falsy numbers.
\<close>

datatype jsnum = NaN | Num int

definition falsy :: "jsnum \<Rightarrow> bool" where
  "falsy x = (x = NaN \<or> x = Num 0)"

fun lt :: "jsnum \<Rightarrow> jsnum \<Rightarrow> bool" where
  "lt (Num a) (Num b) = (a < b)"
| "lt _ _ = False"

definition gt :: "jsnum \<Rightarrow> jsnum \<Rightarrow> bool" where
  "gt x y = lt y x"

definition digitVal :: "char \<Rightarrow> nat" where
  "digitVal c = of_char c - 48"

definition digitChar :: "nat \<Rightarrow> char" where
  "digitChar d = ''0123456789'' ! d"

definition digitsValue :: "string \<Rightarrow> nat" where
  "digitsValue ds = foldl (\<lambda>a c. 10 * a + digitVal c) 0 ds"

fun showNat :: "nat \<Rightarrow> string" where
  "showNat n = (if n < 10 then [digitChar n] else showNat (n div 10) @ [digitChar (n mod 10)])"

declare showNat.simps [simp del]

definition toString :: "jsnum \<Rightarrow> string" where
  "toString x =
     (case x of
        NaN \<Rightarrow> ''NaN''
      | Num i \<Rightarrow> if i < 0 then CHR ''-'' # showNat (nat (- i)) else showNat (nat i))"

text \<open>
  \<open>parseInt(s, 10)\<close>: leading white space is skipped, one sign is read, then the longest
  run of decimal digits; no digit gives \<open>NaN\<close>.
\<close>

definition parseInt :: "string \<Rightarrow> jsnum" where
  "parseInt s =
     (let t = dropWhile isSpace s;
          neg = (t \<noteq> [] \<and> hd t = CHR ''-'');
          u = (if t \<noteq> [] \<and> (hd t = CHR ''-'' \<or> hd t = CHR ''+'') then tl t else t);
          ds = takeWhile isDigit u
      in if ds = [] then NaN
         else if neg then Num (- int (digitsValue ds)) else Num (int (digitsValue ds)))"

section \<open>The catalog and its lookup maps\<close>

text \<open>
  \<open>BibleLookup.json\<close> is read once when the module is loaded; the file is not part of the
  sources, so the parsed document \<open>bibleData\<close> is a parameter of everything below. A book
  has an ordinal, a name, abbreviations, a testament, an OSIS identifier and an object
  \<open>chapters\<close> from the chapter number, as a decimal string, to the number of its verses.
\<close>

record bookData =
  ord :: string
  name :: string
  abbreviations :: "string list"
  bookTestament :: string
  bookOsisId :: string
  chapters :: "string \<rightharpoonup> int"

text \<open>
  A \<open>Map\<close> keeps its keys in the order of their first insertion; setting a key that is
  present replaces the value in place. That is \<^const>\<open>AList.update\<close> on an association
  list, and \<open>get\<close> is \<^const>\<open>map_of\<close>.
\<close>

record lookup =
  bookNumberMap :: "(string \<times> bookData) list"
  bookNameMap :: "(string \<times> bookData) list"
  bookPatterns :: "string list"

definition isSpecial :: "char \<Rightarrow> bool" where
  "isSpecial c = (c \<in> set ''.*+?^${}()|[]'' \<or> c = CHR 0x5C)"

text \<open>\<open>s.replace(/[.*+?^${}()|[\]\\]/g, '\\$&')\<close>: a backslash before every special character.\<close>

definition escapeRegExp :: "string \<Rightarrow> string" where
  "escapeRegExp s = concat (map (\<lambda>c. if isSpecial c then [CHR 0x5C, c] else [c]) s)"

text \<open>The two \<open>set\<close> calls of the inner loop over the abbreviations: the abbreviation in
  lower case, and the same with every full stop removed.\<close>

definition setAbbreviation ::
  "bookData \<Rightarrow> (string \<times> bookData) list \<Rightarrow> string \<Rightarrow> (string \<times> bookData) list" where
  "setAbbreviation b m abbr =
     AList.update (filter (\<lambda>c. c \<noteq> CHR ''.'') (toLowerCase abbr)) b
       (AList.update (toLowerCase abbr) b m)"

text \<open>One round of the loop \<open>for (const book of bibleData)\<close>.\<close>

definition addBook :: "lookup \<Rightarrow> bookData \<Rightarrow> lookup" where
  "addBook L b =
     \<lparr> bookNumberMap = AList.update (ord b) b (bookNumberMap L),
       bookNameMap =
         foldl (setAbbreviation b) (AList.update (toLowerCase (name b)) b (bookNameMap L))
           (abbreviations b),
       bookPatterns =
         bookPatterns L @ escapeRegExp (name b) # map escapeRegExp (abbreviations b) \<rparr>"

text \<open>
  The module initialisation: the loop, then \<open>bookPatterns.sort((a, b) => b.length - a.length)\<close>,
  a stable sort on the lengths of the escaped patterns, longest first.
\<close>

definition loadLookup :: "bookData list \<Rightarrow> lookup" where
  "loadLookup bibleData =
     (let L = foldl addBook \<lparr> bookNumberMap = [], bookNameMap = [], bookPatterns = [] \<rparr> bibleData
      in L \<lparr> bookPatterns := sort_key (\<lambda>p. - int (length p)) (bookPatterns L) \<rparr>)"

text \<open>The names under which a book is known to the expression: its name and its
  abbreviations, as written.\<close>

definition aliases :: "bookData \<Rightarrow> string list" where
  "aliases b = name b # abbreviations b"

text \<open>The keys that one round of the loop sets in \<open>bookNameMap\<close> for a book, in the order
  of the \<open>set\<close> calls.\<close>

definition aliasKeys :: "bookData \<Rightarrow> string list" where
  "aliasKeys b =
     toLowerCase (name b)
       # concat (map (\<lambda>abbr. [toLowerCase abbr, filter (\<lambda>c. c \<noteq> CHR ''.'') (toLowerCase abbr)])
                  (abbreviations b))"

section \<open>References\<close>

record BibleReference =
  book :: string
  bookId :: string
  "chapter" :: jsnum
  verse :: "jsnum option"
  endVerse :: "jsnum option"
  testament :: string
  osisId :: string

definition parseVerseId :: "lookup \<Rightarrow> string \<Rightarrow> BibleReference option" where
  "parseVerseId L vid =
     (if vid = [] \<or> length vid < 8 then None
      else
        let bookId' = substring 0 2 vid;
            chapter' = parseInt (substring 2 5 vid);
            verse' = parseInt (substring 5 8 vid)
        in case map_of (bookNumberMap L) bookId' of
             None \<Rightarrow> None
           | Some bookData \<Rightarrow>
               Some \<lparr> book = name bookData, bookId = bookId', chapter = chapter',
                      verse = Some verse', endVerse = None,
                      testament = bookTestament bookData, osisId = bookOsisId bookData \<rparr>)"

text \<open>\<open>ref.verse || 1\<close>: an absent verse and a falsy one both give 1.\<close>

definition orElse :: "jsnum option \<Rightarrow> jsnum \<Rightarrow> jsnum" where
  "orElse x d = (case x of None \<Rightarrow> d | Some v \<Rightarrow> if falsy v then d else v)"

definition formatVerseId :: "BibleReference \<Rightarrow> string" where
  "formatVerseId ref =
     (let chapter' = padStart 3 (CHR ''0'') (toString (chapter ref));
          verse' = padStart 3 (CHR ''0'') (toString (orElse (verse ref) (Num 1)))
      in bookId ref @ chapter' @ verse')"

text \<open>
  \<open>isValidReference\<close>. A comparison with an absent verse (\<open>undefined\<close>) is a comparison
  with \<open>NaN\<close>.
\<close>

definition isValidReference :: "lookup \<Rightarrow> BibleReference \<Rightarrow> bool" where
  "isValidReference L reference =
     (case map_of (bookNumberMap L) (bookId reference) of
        None \<Rightarrow> False
      | Some bookData \<Rightarrow>
          (case chapters bookData (toString (chapter reference)) of
             None \<Rightarrow> False
           | Some maxVerse \<Rightarrow>
               if (case verse reference of
                     None \<Rightarrow> False
                   | Some v \<Rightarrow> lt v (Num 1) \<or> gt v (Num maxVerse)) then False
               else if (case endVerse reference of
                          None \<Rightarrow> False
                        | Some e \<Rightarrow>
                            lt e (Num 1) \<or> gt e (Num maxVerse)
                            \<or> lt e (case verse reference of None \<Rightarrow> NaN | Some v \<Rightarrow> v))
               then False
               else True))"

section \<open>The citation regular expression\<close>

text \<open>
  \<open>verseRegex\<close> is
  \<^verbatim>\<open>(\d+\s+)?(P1|...|Pn)\s+(\d+)(?:\s*:\s*(\d+)(?:\s*-\s*(\d+))?)?\<close>
  with the flag \<open>i\<close>, the \<open>Pk\<close> being the sorted patterns. The matcher below follows the
  backtracking order of \<open>exec\<close> on this expression, piece by piece.

  An escaped pattern matches the name it escapes, letter case ignored: \<open>literalOf\<close> reads
  the escapes back.
\<close>

fun literalOf :: "string \<Rightarrow> string" where
  "literalOf (c # d # cs) = (if c = CHR 0x5C then d # literalOf cs else c # literalOf (d # cs))"
| "literalOf cs = cs"

definition matchLiteral :: "string \<Rightarrow> string \<Rightarrow> (string \<times> string) option" where
  "matchLiteral lit s =
     (if length lit \<le> length s \<and> toLowerCase (take (length lit) s) = toLowerCase lit
      then Some (take (length lit) s, drop (length lit) s) else None)"

text \<open>\<open>\d+\<close>: the longest run of digits, at least one. Where it is used a shorter run
  never helps: the next piece would have to start at a digit, and none does.\<close>

definition digits1 :: "string \<Rightarrow> (string \<times> string) option" where
  "digits1 s =
     (let ds = takeWhile isDigit s in if ds = [] then None else Some (ds, dropWhile isDigit s))"

text \<open>\<open>(?:\s*-\s*(\d+))?\<close>: the end verse, when the text goes on with a hyphen and digits.\<close>

definition matchEndVerse :: "string \<Rightarrow> string option" where
  "matchEndVerse s =
     (case dropWhile isSpace s of
        [] \<Rightarrow> None
      | c # r \<Rightarrow>
          if c = CHR ''-'' then map_option fst (digits1 (dropWhile isSpace r)) else None)"

text \<open>\<open>(?:\s*:\s*(\d+)(?:\s*-\s*(\d+))?)?\<close>: verse and end verse.\<close>

definition matchVerse :: "string \<Rightarrow> string option \<times> string option" where
  "matchVerse s =
     (case dropWhile isSpace s of
        [] \<Rightarrow> (None, None)
      | c # r \<Rightarrow>
          if c = CHR '':'' then
            (case digits1 (dropWhile isSpace r) of
               None \<Rightarrow> (None, None)
             | Some (v, r') \<Rightarrow> (Some v, matchEndVerse r'))
          else (None, None))"

text \<open>\<open>\s+(\d+)\<close> and the optional rest. Everything after the chapter is optional, so the
  first chapter found stands.\<close>

definition matchChapter :: "string \<Rightarrow> (string \<times> string option \<times> string option) option" where
  "matchChapter s =
     (if s \<noteq> [] \<and> isSpace (hd s) then
        (case digits1 (dropWhile isSpace s) of
           None \<Rightarrow> None
         | Some (c, r) \<Rightarrow> Some (c, matchVerse r))
      else None)"

fun firstSome :: "('a \<Rightarrow> 'b option) \<Rightarrow> 'a list \<Rightarrow> 'b option" where
  "firstSome f [] = None"
| "firstSome f (x # xs) = (case f x of Some y \<Rightarrow> Some y | None \<Rightarrow> firstSome f xs)"

text \<open>The alternatives of the group, in their order. Joining no pattern at all leaves the
  empty alternative.\<close>

definition alternatives :: "lookup \<Rightarrow> string list" where
  "alternatives L = (if bookPatterns L = [] then [[]] else bookPatterns L)"

text \<open>One alternative followed by the rest of the expression: book name, chapter, verse,
  end verse.\<close>

definition matchAlternative ::
  "string \<Rightarrow> string \<Rightarrow> (string \<times> string \<times> string option \<times> string option) option" where
  "matchAlternative s p =
     (case matchLiteral (literalOf p) s of
        None \<Rightarrow> None
      | Some (b, r) \<Rightarrow>
          (case matchChapter r of
             None \<Rightarrow> None
           | Some (c, v, e) \<Rightarrow> Some (b, c, v, e)))"

definition matchBook ::
  "string list \<Rightarrow> string \<Rightarrow> (string \<times> string \<times> string option \<times> string option) option" where
  "matchBook alts s = firstSome (matchAlternative s) alts"

text \<open>
  \<open>(\d+\s+)?\<close> followed by the rest: all the digits, then the white space, the longest
  run first and giving one character back at a time while the rest fails.
\<close>

definition matchPrefixed ::
  "string list \<Rightarrow> string \<Rightarrow>
     (string option \<times> string \<times> string \<times> string option \<times> string option) option" where
  "matchPrefixed alts s =
     (let ds = takeWhile isDigit s; r = dropWhile isDigit s; w = takeWhile isSpace r
      in if ds = [] then None
         else firstSome
                (\<lambda>k. map_option (\<lambda>m. (Some (ds @ take k w), m)) (matchBook alts (drop k r)))
                (rev [1 ..< Suc (length w)]))"

text \<open>A match at the start of \<open>s\<close>: with the optional prefix when that works, else without.\<close>

definition matchHere ::
  "string list \<Rightarrow> string \<Rightarrow>
     (string option \<times> string \<times> string \<times> string option \<times> string option) option" where
  "matchHere alts s =
     (case matchPrefixed alts s of
        Some m \<Rightarrow> Some m
      | None \<Rightarrow> map_option (\<lambda>m. (None, m)) (matchBook alts s))"

text \<open>\<open>verseRegex.exec\<close>: the expression is not anchored, so every start position is
  tried from the left.\<close>

fun exec ::
  "string list \<Rightarrow> string \<Rightarrow>
     (string option \<times> string \<times> string \<times> string option \<times> string option) option" where
  "exec alts [] = matchHere alts []"
| "exec alts (c # cs) =
     (case matchHere alts (c # cs) of Some m \<Rightarrow> Some m | None \<Rightarrow> exec alts cs)"

section \<open>Parsing a citation\<close>

definition bookKeyOf :: "string option \<Rightarrow> string \<Rightarrow> string" where
  "bookKeyOf prefix' bookName =
     (case prefix' of
        Some p \<Rightarrow> if p \<noteq> [] \<and> bookName \<noteq> [] then toLowerCase (p @ bookName)
                  else toLowerCase bookName
      | None \<Rightarrow> toLowerCase bookName)"

text \<open>The loop over \<open>bookNameMap.entries()\<close> that stops at the first key related to
  \<open>bookKey\<close> by \<open>startsWith\<close>, one way or the other.\<close>

definition related :: "string \<Rightarrow> string \<Rightarrow> bool" where
  "related bookKey key = (prefix key bookKey \<or> prefix bookKey key)"

fun alternativeLookup :: "string \<Rightarrow> (string \<times> bookData) list \<Rightarrow> bookData option" where
  "alternativeLookup bookKey [] = None"
| "alternativeLookup bookKey ((key, v) # es) =
     (if related bookKey key then Some v else alternativeLookup bookKey es)"

definition findBook :: "lookup \<Rightarrow> string \<Rightarrow> bookData option" where
  "findBook L bookKey =
     (case map_of (bookNameMap L) bookKey of
        Some b \<Rightarrow> Some b
      | None \<Rightarrow> alternativeLookup bookKey (bookNameMap L))"

definition parseReference :: "lookup \<Rightarrow> string \<Rightarrow> BibleReference option" where
  "parseReference L reference =
     (case exec (alternatives L) (trim reference) of
        None \<Rightarrow> None
      | Some (prefix', bookName, chapter', verse', endVerse') \<Rightarrow>
          (case findBook L (bookKeyOf prefix' bookName) of
             None \<Rightarrow> None
           | Some bookData \<Rightarrow>
               Some \<lparr> book = name bookData, bookId = ord bookData,
                      chapter = parseInt chapter',
                      verse = map_option parseInt verse',
                      endVerse = map_option parseInt endVerse',
                      testament = bookTestament bookData, osisId = bookOsisId bookData \<rparr>))"

text \<open>
  For comparison, the fallback as the specification words it: among the registered aliases
  that are a prefix of the key or have it as a prefix, the shortest one, the first of
  them in the order of the map where several are as short.
\<close>

definition shortestAliasLookup :: "string \<Rightarrow> (string \<times> bookData) list \<Rightarrow> bookData option" where
  "shortestAliasLookup bookKey es =
     (case filter (\<lambda>e. related bookKey (fst e)) es of
        [] \<Rightarrow> None
      | c # cs \<Rightarrow>
          Some (snd (foldl (\<lambda>best e. if length (fst e) < length (fst best) then e else best) c cs)))"

section \<open>Token storage and text assembly\<close>

text \<open>
  A row of the table \<open>english_tokens\<close>; the columns \<open>chapter\<close>, \<open>verse\<close> and \<open>text\<close>
  carry the prefix \<open>row\<close> here, the reference has fields of the same names. The flags are
  stored as 0 and 1; \<open>!!\<close> reads them back as truth values.
\<close>

record tokenRow =
  book_num :: string
  book_name :: string
  rowChapter :: int
  rowVerse :: int
  word_position :: int
  rowText :: string
  rowSkipSpaceAfter :: bool
  exclude :: bool

record token =
  tokenText :: string
  skip_space_after :: bool

text \<open>
  The reduction of \<open>assembleTextFromTokens\<close>: the accumulator, the index and the length of
  the whole array are carried along.
\<close>

fun assembleFrom :: "nat \<Rightarrow> nat \<Rightarrow> string \<Rightarrow> token list \<Rightarrow> string" where
  "assembleFrom n i acc [] = acc"
| "assembleFrom n i acc (t # ts) =
     assembleFrom n (Suc i)
       (acc @ tokenText t
          @ (if int i < int n - 1 then (if skip_space_after t then [] else '' '') else []))
       ts"

definition assembleTextFromTokens :: "token list \<Rightarrow> string" where
  "assembleTextFromTokens tokens = assembleFrom (length tokens) 0 [] tokens"

text \<open>
  The module variable \<open>db\<close>, the database file (absent, or the rows it holds) and whether
  the file is in the journal mode WAL. An exception is a value \<open>Inl\<close> that carries the state
  the call leaves behind.

  \<open>initDatabase\<close> returns at once when a connection is open. Otherwise it throws when the
  file does not exist; else it assigns the read-only connection to \<open>db\<close> and then runs
  \<^verbatim>\<open>db.pragma("journal_mode = WAL")\<close>, which throws on a read-only connection to a
  file that is not in that mode already: the connection stays assigned. (The file is taken
  to be a database that \<open>new Database\<close> can open.) A query on a connection that is
  \<open>null\<close> would throw a type error.
\<close>

datatype error = DatabaseFileNotFound | SqliteReadOnly | TypeError

record env =
  db :: "tokenRow list option"
  dbFile :: "tokenRow list option"
  walFile :: bool

definition initDatabase :: "env \<Rightarrow> error \<times> env + env" where
  "initDatabase e =
     (case db e of
        Some _ \<Rightarrow> Inr e
      | None \<Rightarrow>
          (case dbFile e of
             None \<Rightarrow> Inl (DatabaseFileNotFound, e)
           | Some d \<Rightarrow>
               if walFile e then Inr (e \<lparr> db := Some d \<rparr>)
               else Inl (SqliteReadOnly, e \<lparr> db := Some d \<rparr>)))"

definition asToken :: "tokenRow \<Rightarrow> token" where
  "asToken r = \<lparr> tokenText = rowText r, skip_space_after = rowSkipSpaceAfter r \<rparr>"

text \<open>
  The queries. \<open>ORDER BY word_position\<close> is a sort on the position; positions are unique
  within a verse, and rows with equal positions stay in table order here. A bound \<open>NaN\<close>
  equals no stored number.

  The query of \<open>getEnglishText\<close>:
  \<^verbatim>\<open>SELECT text, skip_space_after FROM english_tokens
  WHERE book_num = ? AND chapter = ? AND verse = ? ORDER BY word_position\<close>
\<close>

definition selectVerseTokens :: "tokenRow list \<Rightarrow> string \<Rightarrow> jsnum \<Rightarrow> jsnum \<Rightarrow> token list" where
  "selectVerseTokens tab b c v =
     map asToken
       (sort_key word_position
          (filter (\<lambda>r. book_num r = b \<and> Num (rowChapter r) = c \<and> Num (rowVerse r) = v) tab))"

text \<open>The query of \<open>getPassage\<close> and \<open>searchText\<close> for one verse: the same with
  \<^verbatim>\<open>AND exclude = 0\<close>.\<close>

definition selectIncludedTokens :: "tokenRow list \<Rightarrow> string \<Rightarrow> jsnum \<Rightarrow> jsnum \<Rightarrow> token list" where
  "selectIncludedTokens tab b c v =
     map asToken
       (sort_key word_position
          (filter (\<lambda>r. book_num r = b \<and> Num (rowChapter r) = c \<and> Num (rowVerse r) = v
                       \<and> \<not> exclude r) tab))"

text \<open>\<^verbatim>\<open>SELECT DISTINCT verse ... WHERE book_num = ? AND chapter = ? AND verse >= ? AND verse <= ?
  ORDER BY verse\<close>\<close>

definition selectDistinctVerses :: "tokenRow list \<Rightarrow> string \<Rightarrow> jsnum \<Rightarrow> jsnum \<Rightarrow> jsnum \<Rightarrow> int list" where
  "selectDistinctVerses tab b c lo hi =
     sort (remdups (map rowVerse
       (filter (\<lambda>r. book_num r = b \<and> Num (rowChapter r) = c
                    \<and> \<not> lt (Num (rowVerse r)) lo \<and> lo \<noteq> NaN
                    \<and> \<not> gt (Num (rowVerse r)) hi \<and> hi \<noteq> NaN) tab)))"

text \<open>
  \<open>getEnglishText\<close>: the connection is opened first, then comes the guard on ordinal,
  chapter and verse, then the query. After the guard the verse is present, so the branch
  for an absent verse behind it is never taken. (The \<open>console.log\<close> of the tokens is
  left out.)
\<close>

definition getEnglishText ::
  "env \<Rightarrow> BibleReference \<Rightarrow> error \<times> env + string option \<times> env" where
  "getEnglishText e reference =
     (case initDatabase e of
        Inl err \<Rightarrow> Inl err
      | Inr e' \<Rightarrow>
          if bookId reference = [] \<or> falsy (chapter reference)
             \<or> (case verse reference of None \<Rightarrow> True | Some v \<Rightarrow> falsy v)
          then Inr (None, e')
          else
            (case db e' of
               None \<Rightarrow> Inl (TypeError, e')
             | Some tab \<Rightarrow>
                 (case verse reference of
                    None \<Rightarrow> Inr (None, e')
                  | Some v \<Rightarrow>
                      let tokens = selectVerseTokens tab (bookId reference) (chapter reference) v
                      in if tokens = [] then Inr (None, e')
                         else Inr (Some (assembleTextFromTokens tokens), e'))))"

record passageVerse =
  passageText :: string
  passageVerse :: int
  passageReference :: string

definition getPassage ::
  "env \<Rightarrow> BibleReference \<Rightarrow> error \<times> env + passageVerse list \<times> env" where
  "getPassage e reference =
     (case initDatabase e of
        Inl err \<Rightarrow> Inl err
      | Inr e' \<Rightarrow>
          let startVerse = orElse (verse reference) (Num 1);
              endVerse' = orElse (endVerse reference) startVerse
          in (case db e' of
               None \<Rightarrow> Inl (TypeError, e')
             | Some tab \<Rightarrow>
                 Inr (map (\<lambda>v.
                        \<lparr> passageText =
                            assembleTextFromTokens
                              (selectIncludedTokens tab (bookId reference) (chapter reference) (Num v)),
                          passageVerse = v,
                          passageReference =
                            book reference @ '' '' @ toString (chapter reference) @ '':''
                              @ toString (Num v) \<rparr>)
                      (selectDistinctVerses tab (bookId reference) (chapter reference)
                         startVerse endVerse'),
                     e')))"

section \<open>Sample data\<close>

text \<open>A small catalog in the format of \<open>BibleLookup.json\<close>, to run the functions on.\<close>

definition genesisEntry :: bookData where
  "genesisEntry =
     \<lparr> ord = ''01'', name = ''Genesis'', abbreviations = [''Gen'', ''Ge'', ''Gn''],
       bookTestament = ''OT'', bookOsisId = ''Gen'',
       chapters = [''1'' \<mapsto> 31, ''2'' \<mapsto> 25] \<rparr>"

definition johnEntry :: bookData where
  "johnEntry =
     \<lparr> ord = ''43'', name = ''John'', abbreviations = [''Jn'', ''Jhn''],
       bookTestament = ''NT'', bookOsisId = ''John'',
       chapters = [''1'' \<mapsto> 51, ''2'' \<mapsto> 25, ''3'' \<mapsto> 36] \<rparr>"

definition firstJohnEntry :: bookData where
  "firstJohnEntry =
     \<lparr> ord = ''62'', name = ''1 John'', abbreviations = [''1 Jn'', ''1Jn'', ''1 Jn.''],
       bookTestament = ''NT'', bookOsisId = ''1John'',
       chapters = [''1'' \<mapsto> 10, ''2'' \<mapsto> 29] \<rparr>"

definition thirdJohnEntry :: bookData where
  "thirdJohnEntry =
     \<lparr> ord = ''64'', name = ''3 John'', abbreviations = [''3 Jn'', ''3Jn''],
       bookTestament = ''NT'', bookOsisId = ''3John'',
       chapters = [''1'' \<mapsto> 15] \<rparr>"

definition sampleBooks :: "bookData list" where
  "sampleBooks = [genesisEntry, johnEntry, firstJohnEntry, thirdJohnEntry]"

lemmas sampleEntries = genesisEntry_def johnEntry_def firstJohnEntry_def thirdJohnEntry_def

text \<open>A catalog whose only abbreviation is written with a full stop.\<close>

definition dottedBooks :: "bookData list" where
  "dottedBooks =
     [ \<lparr> ord = ''01'', name = ''Genesis'', abbreviations = [''Gen.''],
         bookTestament = ''OT'', bookOsisId = ''Gen'',
         chapters = [''1'' \<mapsto> 31, ''2'' \<mapsto> 25] \<rparr> ]"

text \<open>Rows of \<open>english_tokens\<close>: John 3:16 with an excluded token in the middle.\<close>

definition sampleRows :: "tokenRow list" where
  "sampleRows =
     [ \<lparr> book_num = ''43'', book_name = ''John'', rowChapter = 3, rowVerse = 16,
         word_position = 1, rowText = ''For'', rowSkipSpaceAfter = False, exclude = False \<rparr>,
       \<lparr> book_num = ''43'', book_name = ''John'', rowChapter = 3, rowVerse = 16,
         word_position = 2, rowText = ''vvv'', rowSkipSpaceAfter = False, exclude = True \<rparr>,
       \<lparr> book_num = ''43'', book_name = ''John'', rowChapter = 3, rowVerse = 16,
         word_position = 3, rowText = ''God'', rowSkipSpaceAfter = True, exclude = False \<rparr>,
       \<lparr> book_num = ''43'', book_name = ''John'', rowChapter = 3, rowVerse = 17,
         word_position = 1, rowText = ''For'', rowSkipSpaceAfter = True, exclude = False \<rparr> ]"

definition john316 :: BibleReference where
  "john316 = \<lparr> book = ''John'', bookId = ''43'', chapter = Num 3, verse = Some (Num 16),
               endVerse = None, testament = ''NT'', osisId = ''John'' \<rparr>"

text \<open>A catalog in which two books have aliases that begin with "1 c", and "C" is an
  alias on its own.\<close>

definition tieBooks :: "bookData list" where
  "tieBooks =
     [ \<lparr> ord = ''13'', name = ''1 Chronicles'', abbreviations = [''1 Chr''],
         bookTestament = ''OT'', bookOsisId = ''1Chr'', chapters = [''2'' \<mapsto> 55] \<rparr>,
       \<lparr> ord = ''46'', name = ''1 Corinthians'', abbreviations = [''1 Co''],
         bookTestament = ''NT'', bookOsisId = ''1Cor'', chapters = [''2'' \<mapsto> 16] \<rparr>,
       \<lparr> ord = ''51'', name = ''Colossians'', abbreviations = [''C''],
         bookTestament = ''NT'', bookOsisId = ''Col'', chapters = [''2'' \<mapsto> 23] \<rparr> ]"

section \<open>Text assembly\<close>

lemma assembleFrom_acc: "assembleFrom n i acc ts = acc @ assembleFrom n i [] ts"
proof (induction ts arbitrary: i acc)
  case Nil
  show ?case by simp
next
  case (Cons t ts)
  show ?case
    by (simp add: Cons.IH [of "Suc i" "acc @ _"] Cons.IH [of "Suc i" "tokenText t @ _"]
          Cons.IH [of "Suc i" "tokenText t"])
qed

lemma assembleFrom_shift: "assembleFrom (Suc n) (Suc i) acc ts = assembleFrom n i acc ts"
  by (induction ts arbitrary: i acc) auto

lemma assemble_Nil: "assembleTextFromTokens [] = []"
  by (simp add: assembleTextFromTokens_def)

lemma assemble_single: "assembleTextFromTokens [t] = tokenText t"
  by (simp add: assembleTextFromTokens_def)

lemma assemble_Cons:
  "assembleTextFromTokens (t # u # ts) =
     tokenText t @ (if skip_space_after t then [] else '' '') @ assembleTextFromTokens (u # ts)"
proof -
  have "assembleTextFromTokens (t # u # ts) =
          assembleFrom (Suc (Suc (length ts))) (Suc 0)
            (tokenText t @ (if skip_space_after t then [] else '' '')) (u # ts)"
    by (simp add: assembleTextFromTokens_def)
  also have "\<dots> = (tokenText t @ (if skip_space_after t then [] else '' ''))
                    @ assembleFrom (Suc (Suc (length ts))) (Suc 0) [] (u # ts)"
    by (rule assembleFrom_acc)
  also have "assembleFrom (Suc (Suc (length ts))) (Suc 0) [] (u # ts)
               = assembleTextFromTokens (u # ts)"
    unfolding assembleTextFromTokens_def by (simp only: assembleFrom_shift length_Cons)
  finally show ?thesis by simp
qed

text \<open>
  Claim C6. \<open>assembleTextFromTokens\<close> concatenates the token texts in order and appends a
  single blank after every token but the last, unless the token's flag suppresses it (the
  flag of the source is \<open>skip_space_after\<close>, true where no blank follows). The tokens
  "In", "the", "beginning." assemble to "In the beginning." with no blank at the end, and
  "Hello", ",", "world" to "Hello, world".
\<close>

theorem assembleTextFromTokens_spacing:
  "assembleTextFromTokens [] = []
   \<and> assembleTextFromTokens [t] = tokenText t
   \<and> assembleTextFromTokens (t # u # ts) =
       tokenText t @ (if skip_space_after t then [] else '' '') @ assembleTextFromTokens (u # ts)
   \<and> assembleTextFromTokens
       [\<lparr>tokenText = ''In'', skip_space_after = False\<rparr>,
        \<lparr>tokenText = ''the'', skip_space_after = False\<rparr>,
        \<lparr>tokenText = ''beginning.'', skip_space_after = True\<rparr>] = ''In the beginning.''
   \<and> assembleTextFromTokens
       [\<lparr>tokenText = ''Hello'', skip_space_after = True\<rparr>,
        \<lparr>tokenText = '','', skip_space_after = False\<rparr>,
        \<lparr>tokenText = ''world'', skip_space_after = True\<rparr>] = ''Hello, world''"
  by (simp only: assemble_Nil assemble_single assemble_Cons) simp

section \<open>Verse identifiers\<close>

lemma find_snoc:
  "find P (xs @ [x]) = (case find P xs of Some y \<Rightarrow> Some y | None \<Rightarrow> if P x then Some x else None)"
  by (induction xs) auto

lemma find_SomeD: "find P xs = Some x \<Longrightarrow> x \<in> set xs \<and> P x"
  by (induction xs) (auto split: if_splits)

lemma numberMap_addBook:
  "bookNumberMap (addBook L b) = AList.update (ord b) b (bookNumberMap L)"
  by (simp add: addBook_def)

lemma numberMap_foldl:
  "map_of (bookNumberMap (foldl addBook L bd)) k =
     (case find (\<lambda>b. ord b = k) (rev bd) of
        Some b \<Rightarrow> Some b
      | None \<Rightarrow> map_of (bookNumberMap L) k)"
proof (induction bd arbitrary: L)
  case Nil
  show ?case by simp
next
  case (Cons b bd)
  show ?case
    by (simp add: Cons.IH numberMap_addBook update_conv' find_snoc split: option.splits)
qed

lemma numberMap_load:
  "map_of (bookNumberMap (loadLookup bd)) k = find (\<lambda>b. ord b = k) (rev bd)"
  by (simp add: loadLookup_def Let_def numberMap_foldl split: option.splits)

lemma numberMap_None: "(map_of (bookNumberMap (loadLookup bd)) k = None) = (k \<notin> ord ` set bd)"
  by (auto simp: numberMap_load find_None_iff)

lemma numberMap_Some:
  "map_of (bookNumberMap (loadLookup bd)) k = Some b \<Longrightarrow> b \<in> set bd \<and> ord b = k"
  using find_SomeD [of "\<lambda>b. ord b = k" "rev bd" b] by (simp add: numberMap_load)

text \<open>
  Claim C8. \<open>parseVerseId\<close> returns \<open>null\<close> exactly when the identifier has fewer than 8
  characters or its first two characters are not the ordinal of a book of the catalog;
  otherwise it returns a reference whose ordinal is these two characters and whose book
  name and testament are those of the catalog entry for them.
\<close>

theorem parseVerseId_failure:
  "(parseVerseId (loadLookup bibleData) vid = None
      \<longleftrightarrow> length vid < 8 \<or> take 2 vid \<notin> ord ` set bibleData)
   \<and> (\<forall>r. parseVerseId (loadLookup bibleData) vid = Some r \<longrightarrow>
         (\<exists>b. map_of (bookNumberMap (loadLookup bibleData)) (take 2 vid) = Some b
              \<and> b \<in> set bibleData \<and> ord b = take 2 vid
              \<and> bookId r = take 2 vid \<and> book r = name b \<and> testament r = bookTestament b))"
proof (cases "map_of (bookNumberMap (loadLookup bibleData)) (take 2 vid)")
  case None
  then show ?thesis
    using numberMap_None [of bibleData "take 2 vid"]
    by (simp add: parseVerseId_def substring_def Let_def)
next
  case (Some b)
  then show ?thesis
    using numberMap_None [of bibleData "take 2 vid"] numberMap_Some [OF Some]
    by (auto simp: parseVerseId_def substring_def Let_def)
qed

theorem parseVerseId_failure_witness:
  "parseVerseId (loadLookup sampleBooks) ''43003016'' =
     Some \<lparr>book = ''John'', bookId = ''43'', chapter = Num 3, verse = Some (Num 16),
            endVerse = None, testament = ''NT'', osisId = ''John''\<rparr>
   \<and> (\<exists>b. map_of (bookNumberMap (loadLookup sampleBooks)) (take 2 ''43003016'') = Some b
          \<and> b \<in> set sampleBooks \<and> ord b = ''43'' \<and> name b = ''John'' \<and> bookTestament b = ''NT'')
   \<and> parseVerseId (loadLookup sampleBooks) ''4300301'' = None
   \<and> parseVerseId (loadLookup sampleBooks) ''99003016'' = None"
proof -
  have ev: "parseVerseId (loadLookup sampleBooks) ''43003016'' =
     Some \<lparr>book = ''John'', bookId = ''43'', chapter = Num 3, verse = Some (Num 16),
            endVerse = None, testament = ''NT'', osisId = ''John''\<rparr>"
    by code_simp
  have short: "length ''4300301'' < 8" by simp
  have unknown: "take 2 ''99003016'' \<notin> ord ` set sampleBooks"
    by (simp add: sampleBooks_def sampleEntries)
  from parseVerseId_failure [of sampleBooks "''43003016''"] ev
  have "\<exists>b. map_of (bookNumberMap (loadLookup sampleBooks)) (take 2 ''43003016'') = Some b
          \<and> b \<in> set sampleBooks \<and> ord b = ''43'' \<and> name b = ''John'' \<and> bookTestament b = ''NT''"
    by auto
  moreover from parseVerseId_failure [of sampleBooks "''4300301''"] short
  have "parseVerseId (loadLookup sampleBooks) ''4300301'' = None" by blast
  moreover from parseVerseId_failure [of sampleBooks "''99003016''"] unknown
  have "parseVerseId (loadLookup sampleBooks) ''99003016'' = None" by blast
  ultimately show ?thesis using ev by blast
qed

text \<open>
  Claim C5. For a reference whose ordinal is in the catalog, \<open>isValidReference\<close> is false
  when the verse is 0, when the verse is greater than the number of verses of the chapter,
  when an end verse is present and less than the verse, and when the chapter number is
  not a key of the book's \<open>chapters\<close>.
\<close>

theorem isValidReference_rejects:
  assumes "map_of (bookNumberMap L) (bookId r) = Some b"
    and "verse r = Some (Num 0)
         \<or> (\<exists>m v. chapters b (toString (chapter r)) = Some m \<and> verse r = Some (Num v) \<and> m < v)
         \<or> (\<exists>e v. endVerse r = Some (Num e) \<and> verse r = Some (Num v) \<and> e < v)
         \<or> chapters b (toString (chapter r)) = None"
  shows "\<not> isValidReference L r"
  using assms by (auto simp: isValidReference_def gt_def split: option.splits)

theorem isValidReference_rejects_witness:
  "map_of (bookNumberMap (loadLookup sampleBooks)) (bookId john316) = Some (johnEntry)
   \<and> isValidReference (loadLookup sampleBooks) john316
   \<and> \<not> isValidReference (loadLookup sampleBooks) (john316 \<lparr> verse := Some (Num 0) \<rparr>)
   \<and> \<not> isValidReference (loadLookup sampleBooks) (john316 \<lparr> verse := Some (Num 37) \<rparr>)
   \<and> \<not> isValidReference (loadLookup sampleBooks) (john316 \<lparr> endVerse := Some (Num 15) \<rparr>)
   \<and> \<not> isValidReference (loadLookup sampleBooks) (john316 \<lparr> chapter := Num 4 \<rparr>)"
proof -
  let ?L = "loadLookup sampleBooks"
  have "find (\<lambda>b. ord b = ''43'') (rev sampleBooks) = Some (johnEntry)"
    by (simp add: sampleBooks_def sampleEntries)
  then have b: "map_of (bookNumberMap ?L) ''43'' = Some (johnEntry)"
    by (simp only: numberMap_load)
  have ok: "isValidReference ?L john316"
    by code_simp
  have c3: "chapters (johnEntry) (toString (Num 3)) = Some 36"
    by code_simp
  have c4: "chapters (johnEntry) (toString (Num 4)) = None"
    by code_simp
  have "\<not> isValidReference ?L (john316 \<lparr> verse := Some (Num 0) \<rparr>)"
    by (rule isValidReference_rejects [where b = "johnEntry"])
       (simp_all add: b john316_def)
  moreover have "\<not> isValidReference ?L (john316 \<lparr> verse := Some (Num 37) \<rparr>)"
    by (rule isValidReference_rejects [where b = "johnEntry"])
       (simp_all add: b john316_def c3 c4)
  moreover have "\<not> isValidReference ?L (john316 \<lparr> endVerse := Some (Num 15) \<rparr>)"
    by (rule isValidReference_rejects [where b = "johnEntry"])
       (simp_all add: b john316_def)
  moreover have "\<not> isValidReference ?L (john316 \<lparr> chapter := Num 4 \<rparr>)"
    by (rule isValidReference_rejects [where b = "johnEntry"])
       (simp_all add: b john316_def c3 c4)
  ultimately show ?thesis using b ok by (simp add: john316_def)
qed

section \<open>Reading verses from the token table\<close>

text \<open>The query with \<open>exclude = 0\<close> is the plain query on the table without its excluded
  rows.\<close>

lemma selectIncluded_filter:
  "selectIncludedTokens tab b c v = selectVerseTokens (filter (\<lambda>r. \<not> exclude r) tab) b c v"
  by (simp add: selectIncludedTokens_def selectVerseTokens_def conj_commute conj_left_commute)

text \<open>
  Claim C1, at a failing input. Each operation that assembles the text of a verse is to
  leave out the excluded tokens, the blanks being decided among the tokens that remain.
  \<open>getPassage\<close> does, its query has \<open>exclude = 0\<close>; the query of \<open>getEnglishText\<close> has
  no such condition, and the excluded token of John 3:16 in the sample rows is part of
  its text.
\<close>

theorem getEnglishText_keeps_excluded:
  "getEnglishText \<lparr> db = Some sampleRows, dbFile = Some sampleRows, walFile = True \<rparr> john316 =
     Inr (Some ''For vvv God'', \<lparr> db = Some sampleRows, dbFile = Some sampleRows, walFile = True \<rparr>)
   \<and> getPassage \<lparr> db = Some sampleRows, dbFile = Some sampleRows, walFile = True \<rparr> john316 =
     Inr ([\<lparr> passageText = ''For God'', passageVerse = 16, passageReference = ''John 3:16'' \<rparr>],
          \<lparr> db = Some sampleRows, dbFile = Some sampleRows, walFile = True \<rparr>)"
  by code_simp

text \<open>
  Claim C10 as stated fails: the call opens the database before it looks at the verse.
  With no connection open and no database file, \<open>getEnglishText\<close> of a reference without
  a verse throws the error of \<open>initDatabase\<close> and returns nothing.
\<close>

theorem getEnglishText_whole_chapter_throws:
  "verse (john316 \<lparr> verse := None \<rparr>) = None
   \<and> getEnglishText \<lparr> db = None, dbFile = None, walFile = False \<rparr> (john316 \<lparr> verse := None \<rparr>)
       = Inl (DatabaseFileNotFound, \<lparr> db = None, dbFile = None, walFile = False \<rparr>)"
  by code_simp

text \<open>The same happens when the file exists and the pragma fails; the connection is
  assigned by then, and the next call finds it open and returns \<open>null\<close>.\<close>

lemma getEnglishText_pragma_fails:
  "getEnglishText \<lparr> db = None, dbFile = Some sampleRows, walFile = False \<rparr>
       (john316 \<lparr> verse := None \<rparr>)
     = Inl (SqliteReadOnly, \<lparr> db = Some sampleRows, dbFile = Some sampleRows, walFile = False \<rparr>)
   \<and> getEnglishText \<lparr> db = Some sampleRows, dbFile = Some sampleRows, walFile = False \<rparr>
       (john316 \<lparr> verse := None \<rparr>)
     = Inr (None, \<lparr> db = Some sampleRows, dbFile = Some sampleRows, walFile = False \<rparr>)"
  by code_simp

text \<open>
  Claim C10, amended. For a reference whose verse is absent or 0, \<open>getEnglishText\<close> does
  what \<open>initDatabase\<close> does and no more: when \<open>initDatabase\<close> throws (no connection is open
  and the file is missing or the pragma fails), the call throws the same error; when a
  connection is open or is opened without error, the call returns \<open>null\<close> and leaves the
  state of \<open>initDatabase\<close>, whatever rows the token table holds and whether or not the
  ordinal and the chapter are valid: no query is run.
\<close>

theorem getEnglishText_whole_chapter:
  assumes "verse r = None \<or> verse r = Some (Num 0)"
  shows "(\<forall>e'. initDatabase e = Inr e' \<longrightarrow> getEnglishText e r = Inr (None, e'))
       \<and> (\<forall>x. initDatabase e = Inl x \<longrightarrow> getEnglishText e r = Inl x)"
  using assms by (auto simp: getEnglishText_def falsy_def)

theorem getEnglishText_whole_chapter_witness:
  "verse (john316 \<lparr> verse := None \<rparr>) = None
   \<and> initDatabase \<lparr> db = None, dbFile = Some sampleRows, walFile = True \<rparr>
       = Inr \<lparr> db = Some sampleRows, dbFile = Some sampleRows, walFile = True \<rparr>
   \<and> getEnglishText \<lparr> db = None, dbFile = Some sampleRows, walFile = True \<rparr>
         (john316 \<lparr> verse := None \<rparr>)
       = Inr (None, \<lparr> db = Some sampleRows, dbFile = Some sampleRows, walFile = True \<rparr>)
   \<and> verse (john316 \<lparr> verse := Some (Num 0) \<rparr>) = Some (Num 0)
   \<and> initDatabase \<lparr> db = Some sampleRows, dbFile = None, walFile = False \<rparr>
       = Inr \<lparr> db = Some sampleRows, dbFile = None, walFile = False \<rparr>
   \<and> getEnglishText \<lparr> db = Some sampleRows, dbFile = None, walFile = False \<rparr>
         (john316 \<lparr> verse := Some (Num 0) \<rparr>)
       = Inr (None, \<lparr> db = Some sampleRows, dbFile = None, walFile = False \<rparr>)
   \<and> initDatabase \<lparr> db = None, dbFile = None, walFile = False \<rparr>
       = Inl (DatabaseFileNotFound, \<lparr> db = None, dbFile = None, walFile = False \<rparr>)
   \<and> getEnglishText \<lparr> db = None, dbFile = None, walFile = False \<rparr>
         (john316 \<lparr> verse := Some (Num 0) \<rparr>)
       = Inl (DatabaseFileNotFound, \<lparr> db = None, dbFile = None, walFile = False \<rparr>)"
proof -
  have i1: "initDatabase \<lparr> db = None, dbFile = Some sampleRows, walFile = True \<rparr>
              = Inr \<lparr> db = Some sampleRows, dbFile = Some sampleRows, walFile = True \<rparr>"
    by (simp add: initDatabase_def)
  have i2: "initDatabase \<lparr> db = Some sampleRows, dbFile = None, walFile = False \<rparr>
              = Inr \<lparr> db = Some sampleRows, dbFile = None, walFile = False \<rparr>"
    by (simp add: initDatabase_def)
  have i3: "initDatabase \<lparr> db = None, dbFile = None, walFile = False \<rparr>
              = Inl (DatabaseFileNotFound, \<lparr> db = None, dbFile = None, walFile = False \<rparr>)"
    by (simp add: initDatabase_def)
  have v1: "verse (john316 \<lparr> verse := None \<rparr>) = None
            \<or> verse (john316 \<lparr> verse := None \<rparr>) = Some (Num 0)"
    by simp
  have v2: "verse (john316 \<lparr> verse := Some (Num 0) \<rparr>) = None
            \<or> verse (john316 \<lparr> verse := Some (Num 0) \<rparr>) = Some (Num 0)"
    by simp
  show ?thesis
    using i1 i2 i3
      getEnglishText_whole_chapter [OF v1, of "\<lparr> db = None, dbFile = Some sampleRows, walFile = True \<rparr>"]
      getEnglishText_whole_chapter [OF v2, of "\<lparr> db = Some sampleRows, dbFile = None, walFile = False \<rparr>"]
      getEnglishText_whole_chapter [OF v2, of "\<lparr> db = None, dbFile = None, walFile = False \<rparr>"]
    by simp
qed

section \<open>The patterns of the regular expression\<close>

text \<open>
  Claim C7, at a failing input. The expression is to have an alternative for every name,
  every abbreviation and every abbreviation without its full stops. The loop puts the
  stripped abbreviation into \<open>bookNameMap\<close> but not into \<open>bookPatterns\<close>: with "Gen." as
  the only abbreviation of Genesis, "gen" is a key of the name map, no pattern matches
  "Gen 1:1", and the citation is not parsed; "Gen. 1:1" is.
\<close>

theorem bookPatterns_lack_stripped:
  "bookPatterns (loadLookup dottedBooks) = [''Genesis'', ''Gen'' @ [CHR 0x5C, CHR ''.'']]
   \<and> map fst (bookNameMap (loadLookup dottedBooks)) = [''genesis'', ''gen.'', ''gen'']
   \<and> parseReference (loadLookup dottedBooks) ''Gen 1:1'' = None
   \<and> map_option book (parseReference (loadLookup dottedBooks) ''Gen. 1:1'') = Some ''Genesis''"
  by code_simp

section \<open>Encoding and decoding a verse identifier\<close>

lemma digit_cases: "d < 10 \<Longrightarrow> d \<in> {0, 1, 2, 3, 4, 5, 6, 7, 8, 9 :: nat}"
  by auto

lemma digitChar_props:
  assumes "d < 10"
  shows "isDigit (digitChar d)" "\<not> isSpace (digitChar d)" "digitChar d \<noteq> CHR ''-''"
    "digitChar d \<noteq> CHR ''+''" "digitVal (digitChar d) = d"
  using digit_cases [OF assms]
  by (auto simp: digitChar_def isDigit_def isSpace_def digitVal_def)

lemma showNat_1: "n < 10 \<Longrightarrow> showNat n = [digitChar n]"
  by (subst showNat.simps) simp
lemma showNat_step: "10 \<le> n \<Longrightarrow> showNat n = showNat (n div 10) @ [digitChar (n mod 10)]"
  by (subst showNat.simps) simp
lemma showNat_2: "10 \<le> n \<Longrightarrow> n < 100 \<Longrightarrow> showNat n = [digitChar (n div 10), digitChar (n mod 10)]"
  by (simp add: showNat_step showNat_1)
lemma div10_bounds: "100 \<le> n \<Longrightarrow> n < 1000 \<Longrightarrow> 10 \<le> n div 10 \<and> n div 10 < 100" for n :: nat
  by (simp add: div_less_iff_less_mult less_eq_div_iff_mult_less_eq)
lemma div10_div10: "n div 10 div 10 = n div 100" for n :: nat
  by (simp add: div_mult2_eq [symmetric])
lemma div100_bound: "n < 1000 \<Longrightarrow> n div 100 < 10" for n :: nat
  by (simp add: div_less_iff_less_mult)
lemma decimal_expansion: "100 * (n div 100) + 10 * (n div 10 mod 10) + n mod 10 = n" for n :: nat
proof -
  have a: "n = 10 * (n div 10) + n mod 10" by simp
  have b: "n div 10 = 10 * (n div 10 div 10) + n div 10 mod 10" by simp
  from a b show ?thesis unfolding div10_div10 by linarith
qed
lemma showNat_3:
  assumes "100 \<le> n" "n < 1000"
  shows "showNat n = [digitChar (n div 100), digitChar (n div 10 mod 10), digitChar (n mod 10)]"
proof -
  have "showNat n = showNat (n div 10) @ [digitChar (n mod 10)]"
    using assms by (intro showNat_step) linarith
  also have "showNat (n div 10) = [digitChar (n div 10 div 10), digitChar (n div 10 mod 10)]"
    using div10_bounds [OF assms] by (intro showNat_2) simp_all
  finally show ?thesis
    unfolding div10_div10 by simp
qed
lemma padStart_showNat:
  assumes "n < 1000"
  shows "padStart 3 (CHR ''0'') (showNat n) =
           [digitChar (n div 100), digitChar (n div 10 mod 10), digitChar (n mod 10)]"
proof -
  have zero: "digitChar 0 = CHR ''0''" by (simp add: digitChar_def)
  consider "n < 10" | "10 \<le> n" "n < 100" | "100 \<le> n"
    by linarith
  then show ?thesis
  proof cases
    case 1
    then have "n div 100 = 0" "n div 10 = 0" by simp_all
    then show ?thesis
      by (simp add: showNat_1 [OF 1] padStart_def zero numeral_3_eq_3)
  next
    case 2
    then have "n div 100 = 0" by simp
    then show ?thesis
      by (simp add: showNat_2 [OF 2] padStart_def zero)
  next
    case 3
    then show ?thesis
      by (simp add: showNat_3 [OF 3 assms] padStart_def)
  qed
qed

lemma parseInt_3digits:
  assumes "a < 10" "b < 10" "c < 10"
  shows "parseInt [digitChar a, digitChar b, digitChar c] = Num (int (100 * a + 10 * b + c))"
  using digitChar_props [OF assms(1)] digitChar_props [OF assms(2)] digitChar_props [OF assms(3)]
  by (simp add: parseInt_def Let_def digitsValue_def)

lemma parseInt_padStart:
  assumes "n < 1000"
  shows "parseInt (padStart 3 (CHR ''0'') (showNat n)) = Num (int n)"
proof -
  have "parseInt (padStart 3 (CHR ''0'') (showNat n)) =
          Num (int (100 * (n div 100) + 10 * (n div 10 mod 10) + n mod 10))"
    unfolding padStart_showNat [OF assms]
    by (rule parseInt_3digits) (simp_all add: div100_bound [OF assms])
  then show ?thesis
    by (simp only: decimal_expansion)
qed

lemma padStart_toString:
  assumes "0 \<le> i" "i \<le> 999"
  shows "length (padStart 3 (CHR ''0'') (toString (Num i))) = 3"
    and "parseInt (padStart 3 (CHR ''0'') (toString (Num i))) = Num i"
proof -
  have n: "nat i < 1000" using assms by simp
  show "length (padStart 3 (CHR ''0'') (toString (Num i))) = 3"
    using assms by (simp add: toString_def padStart_showNat [OF n])
  show "parseInt (padStart 3 (CHR ''0'') (toString (Num i))) = Num i"
    using assms by (simp add: toString_def parseInt_padStart [OF n])
qed

lemma parseVerseId_parts:
  assumes "length bk = 2" "length cs = 3" "length vs = 3"
    and "map_of (bookNumberMap L) bk = Some b"
  shows "parseVerseId L (bk @ cs @ vs) =
           Some \<lparr> book = name b, bookId = bk, chapter = parseInt cs, verse = Some (parseInt vs),
                  endVerse = None, testament = bookTestament b, osisId = bookOsisId b \<rparr>"
  using assms by (auto simp: parseVerseId_def substring_def Let_def)

text \<open>
  Claim C4 as stated fails where the verse is 0: \<open>ref.verse || 1\<close> encodes a verse 0 as
  001, and the decoded verse is 1, not the verse of the reference.
\<close>

theorem verseId_roundtrip_verse0:
  "map_of (bookNumberMap (loadLookup sampleBooks)) (bookId (john316 \<lparr> verse := Some (Num 0) \<rparr>)) \<noteq> None
   \<and> verse (john316 \<lparr> verse := Some (Num 0) \<rparr>) = Some (Num 0)
   \<and> formatVerseId (john316 \<lparr> verse := Some (Num 0) \<rparr>) = ''43003001''
   \<and> parseVerseId (loadLookup sampleBooks) (formatVerseId (john316 \<lparr> verse := Some (Num 0) \<rparr>))
       = Some (john316 \<lparr> verse := Some (Num 1) \<rparr>)"
  by code_simp

text \<open>
  The decoded reference takes its name from the catalog and three characters for each
  number: a negative chapter, a chapter above 999 and a name that is not the catalog's do
  not come back.
\<close>

lemma verseId_roundtrip_limits:
  "map_option chapter
     (parseVerseId (loadLookup sampleBooks) (formatVerseId (john316 \<lparr> chapter := Num (- 5) \<rparr>)))
     = Some (Num 0)
   \<and> map_option chapter
     (parseVerseId (loadLookup sampleBooks) (formatVerseId (john316 \<lparr> chapter := Num 1000 \<rparr>)))
     = Some (Num 100)
   \<and> map_option book
     (parseVerseId (loadLookup sampleBooks) (formatVerseId (john316 \<lparr> book := ''Jn'' \<rparr>)))
     = Some ''John''"
  by code_simp

text \<open>
  Claim C4, amended. Let the ordinal of \<open>r\<close> be a key of the catalog, two characters
  long, the name of \<open>r\<close> the catalog's name for it, the chapter an integer from 0 to 999
  and the verse absent or an integer from 0 to 999. Then
  \<open>parseVerseId (formatVerseId r)\<close> returns a reference with the name, ordinal and
  chapter of \<open>r\<close>, whose verse is the verse of \<open>r\<close> when that is present and not 0, and
  1 when it is absent or 0.
\<close>

theorem verseId_roundtrip:
  assumes "map_of (bookNumberMap L) (bookId r) = Some b"
    and "name b = book r"
    and "length (bookId r) = 2"
    and "chapter r = Num c" and "0 \<le> c" and "c \<le> 999"
    and "verse r = None \<or> (\<exists>v. verse r = Some (Num v) \<and> 0 \<le> v \<and> v \<le> 999)"
  shows "\<exists>r'. parseVerseId L (formatVerseId r) = Some r'
           \<and> book r' = book r \<and> bookId r' = bookId r \<and> chapter r' = chapter r
           \<and> verse r' = (case verse r of
                           None \<Rightarrow> Some (Num 1)
                         | Some v \<Rightarrow> if v = Num 0 then Some (Num 1) else Some v)"
proof -
  define w where "w = (case verse r of Some (Num v) \<Rightarrow> if v = 0 then 1 else v | _ \<Rightarrow> 1)"
  have w: "orElse (verse r) (Num 1) = Num w" "0 \<le> w" "w \<le> 999"
    and wv: "Some (Num w) = (case verse r of
                           None \<Rightarrow> Some (Num 1)
                         | Some v \<Rightarrow> if v = Num 0 then Some (Num 1) else Some v)"
    using assms(7) by (auto simp: w_def orElse_def falsy_def)
  have "parseVerseId L (formatVerseId r) =
          Some \<lparr> book = name b, bookId = bookId r, chapter = Num c, verse = Some (Num w),
                 endVerse = None, testament = bookTestament b, osisId = bookOsisId b \<rparr>"
    unfolding formatVerseId_def Let_def assms(4) w(1)
    by (simp add: parseVerseId_parts [OF assms(3) _ _ assms(1)]
          padStart_toString [OF assms(5,6)] padStart_toString [OF w(2,3)])
  then show ?thesis
    using assms(2,4) wv by simp
qed

theorem verseId_roundtrip_witness:
  "map_of (bookNumberMap (loadLookup sampleBooks)) (bookId john316) = Some johnEntry
   \<and> (\<exists>r'. parseVerseId (loadLookup sampleBooks) (formatVerseId john316) = Some r'
         \<and> book r' = ''John'' \<and> bookId r' = ''43'' \<and> chapter r' = Num 3
         \<and> verse r' = Some (Num 16))
   \<and> (\<exists>r'. parseVerseId (loadLookup sampleBooks) (formatVerseId (john316 \<lparr> verse := None \<rparr>)) = Some r'
         \<and> book r' = ''John'' \<and> bookId r' = ''43'' \<and> chapter r' = Num 3
         \<and> verse r' = Some (Num 1))"
proof -
  have "find (\<lambda>b. ord b = ''43'') (rev sampleBooks) = Some johnEntry"
    by (simp add: sampleBooks_def sampleEntries)
  then have b: "map_of (bookNumberMap (loadLookup sampleBooks)) ''43'' = Some johnEntry"
    by (simp only: numberMap_load)
  have b1: "map_of (bookNumberMap (loadLookup sampleBooks)) (bookId john316) = Some johnEntry"
    using b by (simp add: john316_def)
  have b2: "map_of (bookNumberMap (loadLookup sampleBooks)) (bookId (john316 \<lparr> verse := None \<rparr>))
              = Some johnEntry"
    using b by (simp add: john316_def)
  show ?thesis
    using b1
      verseId_roundtrip [OF b1, of 3]
      verseId_roundtrip [OF b2, of 3]
    by (simp add: john316_def johnEntry_def)
qed

section \<open>The fallback lookup of \<open>parseReference\<close>\<close>

lemma alternativeLookup_None:
  "(alternativeLookup k es = None) = (\<forall>key \<in> fst ` set es. \<not> related k key)"
  by (induction es) (auto split: if_splits)

lemma alternativeLookup_Some:
  "alternativeLookup k es = Some v \<Longrightarrow>
     \<exists>i < length es. related k (fst (es ! i)) \<and> (\<forall>j < i. \<not> related k (fst (es ! j)))
        \<and> v = snd (es ! i)"
proof (induction es)
  case Nil
  then show ?case by simp
next
  case (Cons e es)
  obtain key w where e: "e = (key, w)" by (cases e)
  show ?case
  proof (cases "related k key")
    case True
    with Cons.prems e have "v = w" by simp
    with True e show ?thesis by (intro exI [of _ 0]) simp
  next
    case False
    with Cons.prems e have "alternativeLookup k es = Some v" by simp
    from Cons.IH [OF this] obtain i where i: "i < length es" "related k (fst (es ! i))"
      "\<forall>j < i. \<not> related k (fst (es ! j))" "v = snd (es ! i)" by blast
    have "\<forall>j < Suc i. \<not> related k (fst ((e # es) ! j))"
    proof (intro allI impI)
      fix j assume "j < Suc i"
      then show "\<not> related k (fst ((e # es) ! j))"
        using False e i(3) by (cases j) auto
    qed
    with i show ?thesis by (intro exI [of _ "Suc i"]) simp
  qed
qed

text \<open>
  Claim C3 as stated fails: the loop takes the first related key in the order of the map,
  whatever its length. For "1 C 2:3" on the catalog above the key is "1 c"; the related
  keys are, in order, "1 chronicles", "1 chr", "1 corinthians" and "1 co"; the shortest
  belongs to 1 Corinthians, and \<open>parseReference\<close> returns 1 Chronicles.
\<close>

theorem fallback_not_shortest:
  "exec (alternatives (loadLookup tieBooks)) (trim ''1 C 2:3'')
     = Some (Some ''1 '', ''C'', ''2'', Some ''3'', None)
   \<and> bookKeyOf (Some ''1 '') ''C'' = ''1 c''
   \<and> map_option name (map_of (bookNameMap (loadLookup tieBooks)) ''1 c'') = None
   \<and> filter (related ''1 c'') (map fst (bookNameMap (loadLookup tieBooks)))
       = [''1 chronicles'', ''1 chr'', ''1 corinthians'', ''1 co'']
   \<and> map_option name (shortestAliasLookup ''1 c'' (bookNameMap (loadLookup tieBooks)))
       = Some ''1 Corinthians''
   \<and> map_option book (parseReference (loadLookup tieBooks) ''1 C 2:3'') = Some ''1 Chronicles''"
  by code_simp

text \<open>
  Claim C3, amended. When the expression matches and the key (the matched book text in
  lower case, after the digit prefix when there is one) is not a key of \<open>bookNameMap\<close>,
  \<open>parseReference\<close> returns the book of the first entry of \<open>bookNameMap\<close>, in the
  insertion order of the map, whose key is a prefix of the key looked up or has it as a
  prefix, whatever the lengths; and it returns \<open>null\<close> when there is no such entry.
\<close>

theorem fallback_first_related:
  assumes "exec (alternatives L) (trim reference) = Some (p, bn, c, v, e)"
    and "map_of (bookNameMap L) (bookKeyOf p bn) = None"
  shows "(parseReference L reference = None
          \<and> (\<forall>key \<in> fst ` set (bookNameMap L).
                \<not> (prefix key (bookKeyOf p bn) \<or> prefix (bookKeyOf p bn) key)))
       \<or> (\<exists>i < length (bookNameMap L).
            (prefix (fst (bookNameMap L ! i)) (bookKeyOf p bn)
               \<or> prefix (bookKeyOf p bn) (fst (bookNameMap L ! i)))
            \<and> (\<forall>j < i. \<not> (prefix (fst (bookNameMap L ! j)) (bookKeyOf p bn)
                              \<or> prefix (bookKeyOf p bn) (fst (bookNameMap L ! j))))
            \<and> (\<exists>r. parseReference L reference = Some r
                  \<and> book r = name (snd (bookNameMap L ! i))
                  \<and> bookId r = ord (snd (bookNameMap L ! i))
                  \<and> testament r = bookTestament (snd (bookNameMap L ! i))))"
proof (cases "alternativeLookup (bookKeyOf p bn) (bookNameMap L)")
  case None
  then have "parseReference L reference = None"
    using assms by (simp add: parseReference_def findBook_def)
  with None show ?thesis
    by (simp add: alternativeLookup_None related_def)
next
  case (Some b)
  from alternativeLookup_Some [OF Some] obtain i where i: "i < length (bookNameMap L)"
    "related (bookKeyOf p bn) (fst (bookNameMap L ! i))"
    "\<forall>j < i. \<not> related (bookKeyOf p bn) (fst (bookNameMap L ! j))"
    "b = snd (bookNameMap L ! i)" by blast
  have "\<exists>r. parseReference L reference = Some r \<and> book r = name b \<and> bookId r = ord b
          \<and> testament r = bookTestament b"
    using assms Some by (simp add: parseReference_def findBook_def)
  with i show ?thesis
    unfolding related_def by blast
qed

theorem fallback_first_related_witness:
  "exec (alternatives (loadLookup tieBooks)) (trim ''1 C 2:3'')
     = Some (Some ''1 '', ''C'', ''2'', Some ''3'', None)
   \<and> map_of (bookNameMap (loadLookup tieBooks)) (bookKeyOf (Some ''1 '') ''C'') = None
   \<and> fst (bookNameMap (loadLookup tieBooks) ! 0) = ''1 chronicles''
   \<and> (\<exists>r. parseReference (loadLookup tieBooks) ''1 C 2:3'' = Some r
          \<and> book r = name (snd (bookNameMap (loadLookup tieBooks) ! 0))
          \<and> bookId r = ord (snd (bookNameMap (loadLookup tieBooks) ! 0)))"
proof -
  let ?L = "loadLookup tieBooks"
  have h1: "exec (alternatives ?L) (trim ''1 C 2:3'') = Some (Some ''1 '', ''C'', ''2'', Some ''3'', None)"
    by code_simp
  have "map_option name (map_of (bookNameMap ?L) (bookKeyOf (Some ''1 '') ''C'')) = None"
    by code_simp
  then have h2: "map_of (bookNameMap ?L) (bookKeyOf (Some ''1 '') ''C'') = None"
    by simp
  have k0: "fst (bookNameMap ?L ! 0) = ''1 chronicles''"
    by code_simp
  have r0: "prefix (bookKeyOf (Some ''1 '') ''C'') (fst (bookNameMap ?L ! 0))"
    by code_simp
  have some: "parseReference ?L ''1 C 2:3'' \<noteq> None"
    by code_simp
  from fallback_first_related [OF h1 h2] some
  obtain i r where i: "\<forall>j < i. \<not> (prefix (fst (bookNameMap ?L ! j)) (bookKeyOf (Some ''1 '') ''C'')
                              \<or> prefix (bookKeyOf (Some ''1 '') ''C'') (fst (bookNameMap ?L ! j)))"
    and r: "parseReference ?L ''1 C 2:3'' = Some r" "book r = name (snd (bookNameMap ?L ! i))"
      "bookId r = ord (snd (bookNameMap ?L ! i))"
    by blast
  from i r0 have "i = 0" by (cases i) auto
  with r h1 h2 k0 show ?thesis by simp
qed

section \<open>What the loaded maps and patterns hold\<close>

text \<open>
  The patterns are the escaped names and abbreviations of the catalog, longest escaped
  pattern first; an escaped pattern reads back as the name it came from; the name map
  sends a key to the last book of the catalog that sets it.
\<close>

lemma firstSome_Some: "firstSome f xs = Some y \<Longrightarrow> \<exists>x \<in> set xs. f x = Some y"
  by (induction xs) (auto split: option.splits)

lemma firstSome_None: "(firstSome f xs = None) = (\<forall>x \<in> set xs. f x = None)"
  by (induction xs) (auto split: option.splits)

lemma literalOf_escape_Cons:
  "literalOf (escapeRegExp (c # s)) = c # literalOf (escapeRegExp s)"
proof (cases "isSpecial c")
  case True
  then show ?thesis by (simp add: escapeRegExp_def)
next
  case False
  then have c: "c \<noteq> CHR 0x5C" by (auto simp: isSpecial_def)
  have step: "escapeRegExp (c # s) = c # escapeRegExp s"
    using False by (simp add: escapeRegExp_def)
  show ?thesis
  proof (cases "escapeRegExp s")
    case Nil
    then show ?thesis unfolding step by simp
  next
    case (Cons d ds)
    with c show ?thesis unfolding step by simp
  qed
qed

lemma literalOf_escapeRegExp: "literalOf (escapeRegExp s) = s"
proof (induction s)
  case Nil
  show ?case by (simp add: escapeRegExp_def)
next
  case (Cons c s)
  then show ?case by (simp only: literalOf_escape_Cons)
qed

lemma patterns_addBook:
  "bookPatterns (addBook L b) = bookPatterns L @ map escapeRegExp (aliases b)"
  by (simp add: addBook_def aliases_def)

lemma patterns_foldl:
  "bookPatterns (foldl addBook L bd) =
     bookPatterns L @ concat (map (\<lambda>b. map escapeRegExp (aliases b)) bd)"
  by (induction bd arbitrary: L) (simp_all add: patterns_addBook)

lemma patterns_load:
  "bookPatterns (loadLookup bd) =
     sort_key (\<lambda>p. - int (length p)) (concat (map (\<lambda>b. map escapeRegExp (aliases b)) bd))"
  by (simp add: loadLookup_def Let_def patterns_foldl)

lemma patterns_set:
  "set (bookPatterns (loadLookup bd)) = escapeRegExp ` (\<Union>b \<in> set bd. set (aliases b))"
  by (auto simp: patterns_load)

lemma patterns_sorted:
  "sorted (map (\<lambda>p. - int (length p)) (bookPatterns (loadLookup bd)))"
  by (simp add: patterns_load)

lemma alternatives_cases:
  assumes "p \<in> set (alternatives (loadLookup bd))"
  shows "p = [] \<or> (\<exists>b \<in> set bd. \<exists>a \<in> set (aliases b). p = escapeRegExp a)"
  using assms patterns_set [of bd] by (auto simp: alternatives_def split: if_splits)

lemma alternatives_member:
  assumes "b \<in> set bd" "a \<in> set (aliases b)"
  shows "escapeRegExp a \<in> set (alternatives (loadLookup bd))"
proof -
  have "escapeRegExp a \<in> set (bookPatterns (loadLookup bd))"
    using assms by (auto simp: patterns_set)
  then show ?thesis by (auto simp: alternatives_def)
qed

lemma map_of_setAbbreviation:
  "map_of (setAbbreviation b m a) k =
     (if k = toLowerCase a \<or> k = filter (\<lambda>c. c \<noteq> CHR ''.'') (toLowerCase a) then Some b
      else map_of m k)"
  by (simp add: setAbbreviation_def update_conv')

lemma map_of_setAbbreviations:
  "map_of (foldl (setAbbreviation b) m as) k =
     (if k \<in> set (concat (map (\<lambda>abbr. [toLowerCase abbr, filter (\<lambda>c. c \<noteq> CHR ''.'') (toLowerCase abbr)]) as))
      then Some b else map_of m k)"
  by (induction as arbitrary: m) (auto simp: map_of_setAbbreviation)

lemma nameMap_addBook:
  "map_of (bookNameMap (addBook L b)) k =
     (if k \<in> set (aliasKeys b) then Some b else map_of (bookNameMap L) k)"
  by (simp add: addBook_def map_of_setAbbreviations aliasKeys_def update_conv')

lemma nameMap_foldl:
  "map_of (bookNameMap (foldl addBook L bd)) k =
     (case find (\<lambda>b. k \<in> set (aliasKeys b)) (rev bd) of
        Some b \<Rightarrow> Some b
      | None \<Rightarrow> map_of (bookNameMap L) k)"
proof (induction bd arbitrary: L)
  case Nil
  show ?case by simp
next
  case (Cons b bd)
  show ?case
    by (simp add: Cons.IH nameMap_addBook find_snoc split: option.splits)
qed

lemma nameMap_load:
  "map_of (bookNameMap (loadLookup bd)) k = find (\<lambda>b. k \<in> set (aliasKeys b)) (rev bd)"
  by (simp add: loadLookup_def Let_def nameMap_foldl split: option.splits)

lemma nameMap_resolves:
  assumes "b \<in> set bd" "k \<in> set (aliasKeys b)"
  shows "\<exists>b'. map_of (bookNameMap (loadLookup bd)) k = Some b' \<and> b' \<in> set bd
              \<and> k \<in> set (aliasKeys b')"
proof (cases "find (\<lambda>b. k \<in> set (aliasKeys b)) (rev bd)")
  case None
  with assms show ?thesis by (auto simp: find_None_iff)
next
  case (Some b')
  with find_SomeD [OF Some] show ?thesis by (simp add: nameMap_load)
qed

text \<open>
  The keys of the name map stand in the order in which the catalog first sets them: book
  after book, the name before the abbreviations, each abbreviation before its form without
  full stops, a key that comes again keeping its first place.
\<close>

lemma keys_update:
  "map fst (AList.update k v al) = (if k \<in> set (map fst al) then map fst al else map fst al @ [k])"
  by (simp add: update_keys)

lemma keys_setAbbreviation:
  assumes "map fst m = rev (remdups (rev ks))"
  shows "map fst (setAbbreviation b m a) =
           rev (remdups (rev (ks @ [toLowerCase a, filter (\<lambda>c. c \<noteq> CHR ''.'') (toLowerCase a)])))"
proof -
  have s: "set (map fst m) = set ks" using assms by simp
  show ?thesis
    unfolding setAbbreviation_def keys_update
    using assms s by (auto simp: update_keys)
qed

lemma keys_setAbbreviations:
  assumes "map fst m = rev (remdups (rev ks))"
  shows "map fst (foldl (setAbbreviation b) m as) =
           rev (remdups (rev (ks @ concat (map (\<lambda>abbr. [toLowerCase abbr,
              filter (\<lambda>c. c \<noteq> CHR ''.'') (toLowerCase abbr)]) as))))"
  using assms
proof (induction as arbitrary: m ks)
  case Nil
  then show ?case by simp
next
  case (Cons a as)
  from Cons.IH [OF keys_setAbbreviation [OF Cons.prems, of b a]]
  show ?case by simp
qed

lemma keys_addBook:
  assumes "map fst (bookNameMap L) = rev (remdups (rev ks))"
  shows "map fst (bookNameMap (addBook L b)) = rev (remdups (rev (ks @ aliasKeys b)))"
proof -
  have "map fst (AList.update (toLowerCase (name b)) b (bookNameMap L))
          = rev (remdups (rev (ks @ [toLowerCase (name b)])))"
    using assms by (auto simp: update_keys)
  from keys_setAbbreviations [OF this, of b "abbreviations b"]
  show ?thesis by (simp add: addBook_def aliasKeys_def)
qed

lemma keys_foldl:
  assumes "map fst (bookNameMap L) = rev (remdups (rev ks))"
  shows "map fst (bookNameMap (foldl addBook L bd)) =
           rev (remdups (rev (ks @ concat (map aliasKeys bd))))"
  using assms
proof (induction bd arbitrary: L ks)
  case Nil
  then show ?case by simp
next
  case (Cons b bd)
  from Cons.IH [OF keys_addBook [OF Cons.prems, of b]]
  show ?case by simp
qed

lemma nameMap_keys:
  "map fst (bookNameMap (loadLookup bd)) = rev (remdups (rev (concat (map aliasKeys bd))))"
  using keys_foldl [of "\<lparr> bookNumberMap = [], bookNameMap = [], bookPatterns = [] \<rparr>" "[]" bd]
  by (simp add: loadLookup_def Let_def)

section \<open>Matching a citation\<close>

text \<open>
  For a given text, the lengths at which a book name can end are those followed by white
  space and a chapter number. Where there is one such length only, the book text of a
  match is fixed and the order of the alternatives does not matter.
\<close>

lemma matchAlternative_only:
  assumes "list_all (\<lambda>n. matchChapter (drop n s) = None \<or> n = n0) [0 ..< Suc (length s)]"
    and "matchAlternative s p = Some m"
  shows "toLowerCase (literalOf p) = toLowerCase (take n0 s) \<and> n0 \<le> length s
         \<and> (\<exists>c v e. matchChapter (drop n0 s) = Some (c, v, e) \<and> m = (take n0 s, c, v, e))"
proof -
  let ?n = "length (literalOf p)"
  from assms(2) obtain b r where lit: "matchLiteral (literalOf p) s = Some (b, r)"
    and c': "\<exists>c v e. matchChapter r = Some (c, v, e) \<and> m = (b, c, v, e)"
    by (auto simp: matchAlternative_def split: option.splits)
  have g: "?n \<le> length s \<and> toLowerCase (take ?n s) = toLowerCase (literalOf p)"
    using lit unfolding matchLiteral_def by (metis option.distinct(1))
  then have n: "?n \<le> length s" and l: "toLowerCase (take ?n s) = toLowerCase (literalOf p)"
    by simp_all
  have "b = take ?n s" "r = drop ?n s"
    using lit g by (simp_all add: matchLiteral_def)
  with c' have c: "\<exists>c v e. matchChapter (drop ?n s) = Some (c, v, e) \<and> m = (take ?n s, c, v, e)"
    by simp
  from n have "?n < Suc (length s)" by (rule le_imp_less_Suc)
  then have "?n \<in> set [0 ..< Suc (length s)]"
    by (simp only: set_upt atLeastLessThan_iff le0 simp_thms)
  with assms(1) have "matchChapter (drop ?n s) = None \<or> ?n = n0"
    unfolding list_all_iff by blast
  with c have "?n = n0" by auto
  with n l c show ?thesis by auto
qed

lemma matchAlternative_literal:
  assumes "toLowerCase (literalOf p) = toLowerCase (take n0 s)" and "n0 \<le> length s"
    and "matchChapter (drop n0 s) = Some (c, v, e)"
  shows "matchAlternative s p = Some (take n0 s, c, v, e)"
proof -
  have "length (toLowerCase (literalOf p)) = length (toLowerCase (take n0 s))"
    using assms(1) by simp
  then have "length (literalOf p) = n0"
    using assms(2) by (simp add: toLowerCase_def)
  with assms show ?thesis
    by (simp add: matchAlternative_def matchLiteral_def)
qed

lemma matchBook_unique:
  assumes "list_all (\<lambda>n. matchChapter (drop n s) = None \<or> n = n0) [0 ..< Suc (length s)]"
    and "p \<in> set alts" and "toLowerCase (literalOf p) = toLowerCase (take n0 s)"
    and "n0 \<le> length s" and "matchChapter (drop n0 s) = Some (c, v, e)"
  shows "matchBook alts s = Some (take n0 s, c, v, e)"
proof (cases "matchBook alts s")
  case None
  then have "matchAlternative s p = None"
    using assms(2) by (simp add: matchBook_def firstSome_None)
  with matchAlternative_literal [OF assms(3,4,5)] show ?thesis by simp
next
  case (Some m)
  then obtain q where "matchAlternative s q = Some m"
    unfolding matchBook_def by (blast dest: firstSome_Some)
  from matchAlternative_only [OF assms(1) this] assms(5) Some show ?thesis by auto
qed

lemma matchBook_none:
  assumes "list_all (\<lambda>n. matchChapter (drop n s) = None \<or> n = n0) [0 ..< Suc (length s)]"
    and "\<forall>p \<in> set alts. toLowerCase (literalOf p) \<noteq> toLowerCase (take n0 s)"
  shows "matchBook alts s = None"
proof (cases "matchBook alts s")
  case None
  then show ?thesis .
next
  case (Some m)
  then obtain q where q: "q \<in> set alts" "matchAlternative s q = Some m"
    unfolding matchBook_def by (blast dest: firstSome_Some)
  from matchAlternative_only [OF assms(1) q(2)] assms(2) q(1) show ?thesis by blast
qed

lemma alternatives_literal:
  assumes "b \<in> set bd" and "a \<in> set (aliases b)"
  shows "\<exists>p \<in> set (alternatives (loadLookup bd)). literalOf p = a"
  using alternatives_member [OF assms] literalOf_escapeRegExp by blast

lemma alternatives_avoid:
  assumes "\<forall>b \<in> set bd. \<forall>a \<in> set (aliases b). toLowerCase a \<noteq> k" and "k \<noteq> []"
  shows "\<forall>p \<in> set (alternatives (loadLookup bd)). toLowerCase (literalOf p) \<noteq> k"
proof
  fix p assume "p \<in> set (alternatives (loadLookup bd))"
  from alternatives_cases [OF this] show "toLowerCase (literalOf p) \<noteq> k"
  proof
    assume "p = []"
    with assms(2) show ?thesis by (auto simp: toLowerCase_def)
  next
    assume "\<exists>b \<in> set bd. \<exists>a \<in> set (aliases b). p = escapeRegExp a"
    then obtain b a where "b \<in> set bd" "a \<in> set (aliases b)" "p = escapeRegExp a" by blast
    with assms(1) show ?thesis by (simp add: literalOf_escapeRegExp)
  qed
qed

lemma john11_only:
  "list_all (\<lambda>n. matchChapter (drop n ''John 1:1'') = None \<or> n = 4) [0 ..< Suc (length ''John 1:1'')]"
  by code_simp

lemma john11_chapter: "matchChapter (drop 4 ''John 1:1'') = Some (''1'', Some ''1'', None)"
  by code_simp

lemma matchBook_john11:
  assumes "b \<in> set bd" and "name b = ''John''"
  shows "matchBook (alternatives (loadLookup bd)) ''John 1:1'' = Some (''John'', ''1'', Some ''1'', None)"
proof -
  from assms have "''John'' \<in> set (aliases b)" by (simp add: aliases_def)
  from alternatives_literal [OF assms(1) this]
  obtain p where p: "p \<in> set (alternatives (loadLookup bd))" "literalOf p = ''John''" by blast
  have l: "toLowerCase (literalOf p) = toLowerCase (take 4 ''John 1:1'')"
    by (simp add: p(2))
  have "matchBook (alternatives (loadLookup bd)) ''John 1:1''
          = Some (take 4 ''John 1:1'', ''1'', Some ''1'', None)"
    by (rule matchBook_unique [OF john11_only p(1) l _ john11_chapter]) simp
  then show ?thesis by simp
qed

lemma exec_john11:
  assumes "b \<in> set bd" and "name b = ''John''"
  shows "exec (alternatives (loadLookup bd)) ''John 1:1'' = Some (None, ''John'', ''1'', Some ''1'', None)"
  by (simp add: matchHere_def matchPrefixed_def isDigit_def matchBook_john11 [OF assms])

lemma exec_1john11:
  assumes "b \<in> set bd" and "name b = ''John''"
  shows "exec (alternatives (loadLookup bd)) ''1 John 1:1''
           = Some (Some ''1 '', ''John'', ''1'', Some ''1'', None)"
  by (simp add: matchHere_def matchPrefixed_def isDigit_def isSpace_def Let_def upt_rec
        matchBook_john11 [OF assms])

lemma parseReference_via_key:
  assumes "exec (alternatives L) (trim s) = Some (p, bn, c, v, e)"
    and "map_of (bookNameMap L) (bookKeyOf p bn) = Some b"
  shows "parseReference L s =
           Some \<lparr> book = name b, bookId = ord b, chapter = parseInt c,
                  verse = map_option parseInt v, endVerse = map_option parseInt e,
                  testament = bookTestament b, osisId = bookOsisId b \<rparr>"
  using assms by (simp add: parseReference_def findBook_def)

lemma nameMap_unique:
  assumes "b \<in> set bd" and "k \<in> set (aliasKeys b)"
    and "\<forall>b' \<in> set bd. k \<in> set (aliasKeys b') \<longrightarrow> name b' = nm"
  shows "\<exists>b'. map_of (bookNameMap (loadLookup bd)) k = Some b' \<and> name b' = nm"
  using nameMap_resolves [OF assms(1,2)] assms(3) by blast

lemma aliasKeys_name: "toLowerCase (name b) \<in> set (aliasKeys b)"
  by (simp add: aliasKeys_def)

lemma lower_John: "toLowerCase ''John'' = ''john''" "toLowerCase ''1 John'' = ''1 john''"
  by (simp_all add: toLowerCase_def lowerChar_def)

lemma parseInt_1: "parseInt ''1'' = Num 1" "parseInt ''3'' = Num 3" "parseInt ''16'' = Num 16"
  by code_simp+

lemma trim_citations:
  "trim ''John 1:1'' = ''John 1:1''" "trim ''1 John 1:1'' = ''1 John 1:1''"
  "trim ''John 3:16'' = ''John 3:16''" "trim ''xx John 3:16 yy'' = ''xx John 3:16 yy''"
  by code_simp+

lemma bookKey_john:
  "bookKeyOf None ''John'' = ''john''" "bookKeyOf (Some ''1 '') ''John'' = ''1 john''"
  by (simp_all add: bookKeyOf_def toLowerCase_def lowerChar_def)

text \<open>
  Claim C2. In every catalog that has a book named "John" and a book named "1 John", and
  in which the keys "john" and "1 john" belong to these books only,
  \<open>parseReference\<close> of "1 John 1:1" returns the book "1 John" and \<open>parseReference\<close> of
  "John 1:1" the book "John", both with chapter 1 and verse 1. In "1 John 1:1" the
  expression matches the digit prefix "1 " and the book text "John"; the prefix is put
  back in front of the book text, and the key looked up is "1 john".
\<close>

theorem parseReference_John:
  assumes "\<exists>b \<in> set bibleData. name b = ''John''"
    and "\<exists>b \<in> set bibleData. name b = ''1 John''"
    and "\<forall>b \<in> set bibleData. ''john'' \<in> set (aliasKeys b) \<longrightarrow> name b = ''John''"
    and "\<forall>b \<in> set bibleData. ''1 john'' \<in> set (aliasKeys b) \<longrightarrow> name b = ''1 John''"
  shows "(\<exists>r. parseReference (loadLookup bibleData) ''1 John 1:1'' = Some r
            \<and> book r = ''1 John'' \<and> chapter r = Num 1 \<and> verse r = Some (Num 1)
            \<and> endVerse r = None)
       \<and> (\<exists>r. parseReference (loadLookup bibleData) ''John 1:1'' = Some r
            \<and> book r = ''John'' \<and> chapter r = Num 1 \<and> verse r = Some (Num 1)
            \<and> endVerse r = None)
       \<and> exec (alternatives (loadLookup bibleData)) ''1 John 1:1''
            = Some (Some ''1 '', ''John'', ''1'', Some ''1'', None)
       \<and> bookKeyOf (Some ''1 '') ''John'' = ''1 john''"
proof -
  let ?L = "loadLookup bibleData"
  from assms(1) obtain j where j: "j \<in> set bibleData" "name j = ''John''" by blast
  from assms(2) obtain f where f: "f \<in> set bibleData" "name f = ''1 John''" by blast
  have "''john'' \<in> set (aliasKeys j)"
    using aliasKeys_name [of j] by (simp add: j(2) lower_John)
  from nameMap_unique [OF j(1) this assms(3)]
  obtain j' where j': "map_of (bookNameMap ?L) ''john'' = Some j'" "name j' = ''John''" by blast
  have "''1 john'' \<in> set (aliasKeys f)"
    using aliasKeys_name [of f] by (simp add: f(2) lower_John)
  from nameMap_unique [OF f(1) this assms(4)]
  obtain f' where f': "map_of (bookNameMap ?L) ''1 john'' = Some f'" "name f' = ''1 John''" by blast
  have e1: "exec (alternatives ?L) (trim ''1 John 1:1'')
              = Some (Some ''1 '', ''John'', ''1'', Some ''1'', None)"
    by (simp only: trim_citations exec_1john11 [OF j])
  have e2: "exec (alternatives ?L) (trim ''John 1:1'') = Some (None, ''John'', ''1'', Some ''1'', None)"
    by (simp only: trim_citations exec_john11 [OF j])
  have k1: "map_of (bookNameMap ?L) (bookKeyOf (Some ''1 '') ''John'') = Some f'"
    by (simp only: bookKey_john f')
  have k2: "map_of (bookNameMap ?L) (bookKeyOf None ''John'') = Some j'"
    by (simp only: bookKey_john j')
  have "\<exists>r. parseReference ?L ''1 John 1:1'' = Some r
            \<and> book r = ''1 John'' \<and> chapter r = Num 1 \<and> verse r = Some (Num 1)
            \<and> endVerse r = None"
    by (simp add: parseReference_via_key [OF e1 k1] f'(2) parseInt_1)
  moreover have "\<exists>r. parseReference ?L ''John 1:1'' = Some r
            \<and> book r = ''John'' \<and> chapter r = Num 1 \<and> verse r = Some (Num 1)
            \<and> endVerse r = None"
    by (simp add: parseReference_via_key [OF e2 k2] j'(2) parseInt_1)
  moreover have "exec (alternatives ?L) ''1 John 1:1''
            = Some (Some ''1 '', ''John'', ''1'', Some ''1'', None)"
    by (rule exec_1john11 [OF j])
  ultimately show ?thesis
    using bookKey_john(2) by blast
qed

theorem parseReference_John_witness:
  "(\<exists>b \<in> set sampleBooks. name b = ''John'')
   \<and> (\<exists>b \<in> set sampleBooks. name b = ''1 John'')
   \<and> list_all (\<lambda>b. ''john'' \<in> set (aliasKeys b) \<longrightarrow> name b = ''John'') sampleBooks
   \<and> list_all (\<lambda>b. ''1 john'' \<in> set (aliasKeys b) \<longrightarrow> name b = ''1 John'') sampleBooks
   \<and> (\<exists>r. parseReference (loadLookup sampleBooks) ''1 John 1:1'' = Some r
          \<and> book r = ''1 John'' \<and> chapter r = Num 1 \<and> verse r = Some (Num 1)
          \<and> endVerse r = None)
   \<and> (\<exists>r. parseReference (loadLookup sampleBooks) ''John 1:1'' = Some r
          \<and> book r = ''John'' \<and> chapter r = Num 1 \<and> verse r = Some (Num 1)
          \<and> endVerse r = None)"
proof -
  have h1: "\<exists>b \<in> set sampleBooks. name b = ''John''" by code_simp
  have h2: "\<exists>b \<in> set sampleBooks. name b = ''1 John''" by code_simp
  have l3: "list_all (\<lambda>b. ''john'' \<in> set (aliasKeys b) \<longrightarrow> name b = ''John'') sampleBooks"
    by code_simp
  have l4: "list_all (\<lambda>b. ''1 john'' \<in> set (aliasKeys b) \<longrightarrow> name b = ''1 John'') sampleBooks"
    by code_simp
  from l3 have h3: "\<forall>b \<in> set sampleBooks. ''john'' \<in> set (aliasKeys b) \<longrightarrow> name b = ''John''"
    by (simp only: list_all_iff)
  from l4 have h4: "\<forall>b \<in> set sampleBooks. ''1 john'' \<in> set (aliasKeys b) \<longrightarrow> name b = ''1 John''"
    by (simp only: list_all_iff)
  from parseReference_John [OF h1 h2 h3 h4] h1 h2 l3 l4 show ?thesis by blast
qed

section \<open>A citation inside other text\<close>

lemma embedded_only:
  "list_all (\<lambda>n. matchChapter (drop n ''xx John 3:16 yy'') = None \<or> n = 7)
     [0 ..< Suc (length ''xx John 3:16 yy'')]"
  "list_all (\<lambda>n. matchChapter (drop n ''x John 3:16 yy'') = None \<or> n = 6)
     [0 ..< Suc (length ''x John 3:16 yy'')]"
  "list_all (\<lambda>n. matchChapter (drop n '' John 3:16 yy'') = None \<or> n = 5)
     [0 ..< Suc (length '' John 3:16 yy'')]"
  "list_all (\<lambda>n. matchChapter (drop n ''John 3:16 yy'') = None \<or> n = 4)
     [0 ..< Suc (length ''John 3:16 yy'')]"
  "list_all (\<lambda>n. matchChapter (drop n ''John 3:16'') = None \<or> n = 4)
     [0 ..< Suc (length ''John 3:16'')]"
  by code_simp+

lemma embedded_chapter:
  "matchChapter (drop 4 ''John 3:16 yy'') = Some (''3'', Some ''16'', None)"
  "matchChapter (drop 4 ''John 3:16'') = Some (''3'', Some ''16'', None)"
  by code_simp+

lemma matchBook_john316:
  assumes "b \<in> set bd" and "name b = ''John''"
  shows "matchBook (alternatives (loadLookup bd)) ''John 3:16 yy'' = Some (''John'', ''3'', Some ''16'', None)"
    and "matchBook (alternatives (loadLookup bd)) ''John 3:16'' = Some (''John'', ''3'', Some ''16'', None)"
proof -
  from assms have "''John'' \<in> set (aliases b)" by (simp add: aliases_def)
  from alternatives_literal [OF assms(1) this]
  obtain p where p: "p \<in> set (alternatives (loadLookup bd))" "literalOf p = ''John''" by blast
  have l: "toLowerCase (literalOf p) = toLowerCase (take 4 ''John 3:16 yy'')"
    "toLowerCase (literalOf p) = toLowerCase (take 4 ''John 3:16'')"
    by (simp_all add: p(2))
  have "matchBook (alternatives (loadLookup bd)) ''John 3:16 yy''
          = Some (take 4 ''John 3:16 yy'', ''3'', Some ''16'', None)"
    by (rule matchBook_unique [OF embedded_only(4) p(1) l(1) _ embedded_chapter(1)]) simp
  then show "matchBook (alternatives (loadLookup bd)) ''John 3:16 yy''
               = Some (''John'', ''3'', Some ''16'', None)" by simp
  have "matchBook (alternatives (loadLookup bd)) ''John 3:16''
          = Some (take 4 ''John 3:16'', ''3'', Some ''16'', None)"
    by (rule matchBook_unique [OF embedded_only(5) p(1) l(2) _ embedded_chapter(2)]) simp
  then show "matchBook (alternatives (loadLookup bd)) ''John 3:16''
               = Some (''John'', ''3'', Some ''16'', None)" by simp
qed

lemma lower_takes:
  "toLowerCase (take 7 ''xx John 3:16 yy'') = ''xx john''"
  "toLowerCase (take 6 ''x John 3:16 yy'') = ''x john''"
  "toLowerCase (take 5 '' John 3:16 yy'') = '' john''"
  by code_simp+

lemma matchBook_before:
  assumes "\<forall>b \<in> set bd. \<forall>a \<in> set (aliases b). toLowerCase a \<notin> {''xx john'', ''x john'', '' john''}"
  shows "matchBook (alternatives (loadLookup bd)) ''xx John 3:16 yy'' = None"
    and "matchBook (alternatives (loadLookup bd)) ''x John 3:16 yy'' = None"
    and "matchBook (alternatives (loadLookup bd)) '' John 3:16 yy'' = None"
proof -
  have a: "\<forall>b \<in> set bd. \<forall>a \<in> set (aliases b). toLowerCase a \<noteq> ''xx john''"
    "\<forall>b \<in> set bd. \<forall>a \<in> set (aliases b). toLowerCase a \<noteq> ''x john''"
    "\<forall>b \<in> set bd. \<forall>a \<in> set (aliases b). toLowerCase a \<noteq> '' john''"
    using assms by auto
  have "\<forall>p \<in> set (alternatives (loadLookup bd)).
          toLowerCase (literalOf p) \<noteq> toLowerCase (take 7 ''xx John 3:16 yy'')"
    unfolding lower_takes by (rule alternatives_avoid [OF a(1)]) simp
  then show "matchBook (alternatives (loadLookup bd)) ''xx John 3:16 yy'' = None"
    by (rule matchBook_none [OF embedded_only(1)])
  have "\<forall>p \<in> set (alternatives (loadLookup bd)).
          toLowerCase (literalOf p) \<noteq> toLowerCase (take 6 ''x John 3:16 yy'')"
    unfolding lower_takes by (rule alternatives_avoid [OF a(2)]) simp
  then show "matchBook (alternatives (loadLookup bd)) ''x John 3:16 yy'' = None"
    by (rule matchBook_none [OF embedded_only(2)])
  have "\<forall>p \<in> set (alternatives (loadLookup bd)).
          toLowerCase (literalOf p) \<noteq> toLowerCase (take 5 '' John 3:16 yy'')"
    unfolding lower_takes by (rule alternatives_avoid [OF a(3)]) simp
  then show "matchBook (alternatives (loadLookup bd)) '' John 3:16 yy'' = None"
    by (rule matchBook_none [OF embedded_only(3)])
qed

lemma exec_embedded:
  assumes "b \<in> set bd" and "name b = ''John''"
    and "\<forall>b \<in> set bd. \<forall>a \<in> set (aliases b). toLowerCase a \<notin> {''xx john'', ''x john'', '' john''}"
  shows "exec (alternatives (loadLookup bd)) ''xx John 3:16 yy''
           = Some (None, ''John'', ''3'', Some ''16'', None)"
    and "exec (alternatives (loadLookup bd)) ''John 3:16''
           = Some (None, ''John'', ''3'', Some ''16'', None)"
  by (simp_all add: matchHere_def matchPrefixed_def isDigit_def
        matchBook_before [OF assms(3)] matchBook_john316 [OF assms(1,2)])

text \<open>
  Claim C9. The expression is not anchored: in every catalog that has a book named "John"
  to which alone the key "john" belongs, and no name or abbreviation "xx John", "x John"
  or " John" in any letter case, \<open>parseReference\<close> of "xx John 3:16 yy" succeeds and
  returns the reference that "John 3:16" gives: John, chapter 3, verse 16.
\<close>

theorem parseReference_unanchored:
  assumes "\<exists>b \<in> set bibleData. name b = ''John''"
    and "\<forall>b \<in> set bibleData. ''john'' \<in> set (aliasKeys b) \<longrightarrow> name b = ''John''"
    and "\<forall>b \<in> set bibleData. \<forall>a \<in> set (aliases b).
           toLowerCase a \<notin> {''xx john'', ''x john'', '' john''}"
  shows "\<exists>r. parseReference (loadLookup bibleData) ''xx John 3:16 yy'' = Some r
           \<and> book r = ''John'' \<and> chapter r = Num 3 \<and> verse r = Some (Num 16)
           \<and> endVerse r = None
           \<and> parseReference (loadLookup bibleData) ''John 3:16'' = Some r"
proof -
  let ?L = "loadLookup bibleData"
  from assms(1) obtain j where j: "j \<in> set bibleData" "name j = ''John''" by blast
  have "''john'' \<in> set (aliasKeys j)"
    using aliasKeys_name [of j] by (simp add: j(2) lower_John)
  from nameMap_unique [OF j(1) this assms(2)]
  obtain j' where j': "map_of (bookNameMap ?L) ''john'' = Some j'" "name j' = ''John''" by blast
  have e1: "exec (alternatives ?L) (trim ''xx John 3:16 yy'')
              = Some (None, ''John'', ''3'', Some ''16'', None)"
    by (simp only: trim_citations exec_embedded [OF j assms(3)])
  have e2: "exec (alternatives ?L) (trim ''John 3:16'')
              = Some (None, ''John'', ''3'', Some ''16'', None)"
    by (simp only: trim_citations exec_embedded [OF j assms(3)])
  have k: "map_of (bookNameMap ?L) (bookKeyOf None ''John'') = Some j'"
    by (simp only: bookKey_john j')
  show ?thesis
    by (simp add: parseReference_via_key [OF e1 k] parseReference_via_key [OF e2 k] j'(2) parseInt_1)
qed

theorem parseReference_unanchored_witness:
  "(\<exists>b \<in> set sampleBooks. name b = ''John'')
   \<and> list_all (\<lambda>b. ''john'' \<in> set (aliasKeys b) \<longrightarrow> name b = ''John'') sampleBooks
   \<and> list_all (\<lambda>b. list_all (\<lambda>a. toLowerCase a \<notin> {''xx john'', ''x john'', '' john''})
                         (aliases b)) sampleBooks
   \<and> (\<exists>r. parseReference (loadLookup sampleBooks) ''xx John 3:16 yy'' = Some r
          \<and> book r = ''John'' \<and> chapter r = Num 3 \<and> verse r = Some (Num 16)
          \<and> endVerse r = None
          \<and> parseReference (loadLookup sampleBooks) ''John 3:16'' = Some r)"
proof -
  have h1: "\<exists>b \<in> set sampleBooks. name b = ''John''" by code_simp
  have l2: "list_all (\<lambda>b. ''john'' \<in> set (aliasKeys b) \<longrightarrow> name b = ''John'') sampleBooks"
    by code_simp
  have l3: "list_all (\<lambda>b. list_all (\<lambda>a. toLowerCase a \<notin> {''xx john'', ''x john'', '' john''})
                         (aliases b)) sampleBooks"
    by code_simp
  from l2 have h2: "\<forall>b \<in> set sampleBooks. ''john'' \<in> set (aliasKeys b) \<longrightarrow> name b = ''John''"
    by (simp only: list_all_iff)
  from l3 have h3: "\<forall>b \<in> set sampleBooks. \<forall>a \<in> set (aliases b).
          toLowerCase a \<notin> {''xx john'', ''x john'', '' john''}"
    by (simp only: list_all_iff)
  from parseReference_unanchored [OF h1 h2 h3] h1 l2 l3 show ?thesis by blast
qed


end
